theory Spec2Isabelle
  imports
    Complex_Main
    "HOL-Library.AList"
    "HOL-Library.Char_ord"
    "HOL-Library.List_Lexorder"
    "HOL-Library.Sublist"
begin

section \<open>Data model (src/lib/types.ts)\<close>

text \<open>
  JavaScript numbers are modelled as \<open>int\<close> (visit and download counts are integers), a
  percentage as \<open>real\<close>. A JavaScript string is a \<open>string\<close>, one \<open>char\<close> per code unit;
  \<open>\<le>\<close> on strings is the lexicographic order of the code units, which is what the
  operators \<^verbatim>\<open><=\<close> and \<^verbatim>\<open>>=\<close> of JavaScript compute. A \<^verbatim>\<open>Map\<close> is an association list in
  insertion order: \<^verbatim>\<open>get\<close> is \<open>map_of\<close>, \<^verbatim>\<open>set\<close> is \<open>AList.update\<close> (an existing key keeps
  its place, a new key goes to the end).
\<close>

record MetricApiDatasetEntry =
  dataset_id :: string
  metric_month :: string
  monthly_visit :: int
  monthly_download_resource :: "int option"

text \<open>Of \<^verbatim>\<open>links\<close> only \<^verbatim>\<open>next\<close> is read.\<close>

record MetricApiDatasetResponse =
  data :: "MetricApiDatasetEntry list"
  links_next :: "string option"

text \<open>The fields of an organization and of a dataset that the scripts read.\<close>

record Organization =
  org_id :: string
  org_name :: string

record DatagouvDataset =
  ds_title :: string
  ds_slug :: string
  ds_page :: string
  ds_organization :: "Organization option"

text \<open>The anonymous object type \<^verbatim>\<open>{ visits: number; downloads: number }\<close>.\<close>

record Counts =
  visits :: int
  downloads :: int

record MonthlyStats = Counts +
  month :: string

record DatasetMetrics =
  datasetId :: string
  monthlyStats :: "(string \<times> Counts) list"
  totalVisits :: int
  totalDownloads :: int

text \<open>\<^verbatim>\<open>lastUpdate\<close>, the time stamp of the run, is left out of the generated records.\<close>

record GlobalStats =
  g_totalVisits :: int
  g_totalDownloads :: int
  totalDatasets :: nat
  startDate :: string
  g_monthlyStats :: "MonthlyStats list"

record DatasetSummary =
  id' :: string
  title :: string
  slug :: string
  organization :: string
  organizationId :: string

record DatasetRanking = DatasetSummary +
  value' :: int
  previousValue :: int
  trend :: real
  rank :: nat

record DatasetStats = DatasetSummary +
  url :: string
  s_totalVisits :: int
  s_totalDownloads :: int
  s_monthlyStats :: "MonthlyStats list"
  firstMonth :: string
  lastMonth :: string

datatype Period = Week | Month | Year | AllTime

datatype Metric = Visits | Downloads

type_synonym TopDatasetsData = "Period \<Rightarrow> Metric \<Rightarrow> DatasetRanking list"

section \<open>The JavaScript runtime\<close>

subsection \<open>Falsy values\<close>

text \<open>
  \<^verbatim>\<open>x || 0\<close> on a number or null, \<^verbatim>\<open>s || d\<close> on a string or undefined. On a number that
  is not null \<^verbatim>\<open>x || 0\<close> is the number itself (0 for 0), so
  \<^verbatim>\<open>entry.monthly_visit || 0\<close>, of a field that is a number, is written \<open>monthly_visit entry\<close>.
\<close>

definition num_or_zero :: "int option \<Rightarrow> int" where
  "num_or_zero x = (case x of None \<Rightarrow> 0 | Some n \<Rightarrow> n)"

definition str_or :: "string option \<Rightarrow> string \<Rightarrow> string" where
  "str_or s d = (case s of None \<Rightarrow> d | Some t \<Rightarrow> if t = [] then d else t)"

subsection \<open>Array.prototype.sort\<close>

text \<open>
  The sort of an array is stable; with a consistent comparator its result is the one of
  any stable sort, here insertion from the right.
\<close>

fun insert_by :: "('a \<Rightarrow> 'a \<Rightarrow> int) \<Rightarrow> 'a \<Rightarrow> 'a list \<Rightarrow> 'a list" where
  "insert_by cmp x [] = [x]"
| "insert_by cmp x (y # ys) = (if cmp x y \<le> 0 then x # y # ys else y # insert_by cmp x ys)"

definition array_sort :: "('a \<Rightarrow> 'a \<Rightarrow> int) \<Rightarrow> 'a list \<Rightarrow> 'a list" where
  "array_sort cmp xs = foldr (insert_by cmp) xs []"

text \<open>
  \<^verbatim>\<open>a.localeCompare(b, locale)\<close> compares by the collation of the runtime, which is not
  part of the repository: it is the parameter \<open>key\<close>, the sort key the collation gives a
  string.
\<close>

definition localeCompare :: "(string \<Rightarrow> 'k::linorder) \<Rightarrow> string \<Rightarrow> string \<Rightarrow> int" where
  "localeCompare key a b = (if key a < key b then - 1 else if key a = key b then 0 else 1)"

section \<open>scripts/sync-stats.ts\<close>

definition TOP_DATASETS_COUNT :: nat where
  "TOP_DATASETS_COUNT = 100"

subsection \<open>fetchDatasetMetrics\<close>

text \<open>
  The metric API is the list of the responses it gives to the requests for page 1, 2, ...
  A request past the end of the list is a request that fails after its retries.
\<close>

datatype error = FetchError

definition set_entry :: "(string \<times> Counts) list \<Rightarrow> MetricApiDatasetEntry \<Rightarrow> (string \<times> Counts) list" where
  "set_entry acc entry =
     AList.update (metric_month entry)
       \<lparr>visits = monthly_visit entry,
        downloads = num_or_zero (monthly_download_resource entry)\<rparr> acc"

fun fetch_pages ::
  "(string \<times> Counts) list \<Rightarrow> MetricApiDatasetResponse list \<Rightarrow> error + (string \<times> Counts) list" where
  "fetch_pages acc [] = Inl FetchError"
| "fetch_pages acc (response # rest) =
     (let acc' = foldl set_entry acc (data response)
      in if links_next response = None then Inr acc'
         else fetch_pages acc' rest)"

definition fetchDatasetMetrics :: "string \<Rightarrow> MetricApiDatasetResponse list \<Rightarrow> error + DatasetMetrics" where
  "fetchDatasetMetrics did responses =
     (case fetch_pages [] responses of
        Inl e \<Rightarrow> Inl e
      | Inr acc \<Rightarrow>
          Inr \<lparr>datasetId = did,
               monthlyStats = acc,
               totalVisits = sum_list (map (\<lambda>(m, stats). visits stats) acc),
               totalDownloads = sum_list (map (\<lambda>(m, stats). downloads stats) acc)\<rparr>)"

text \<open>The entries of the pages that the loop reads: up to the first page without a next one.\<close>

fun entries_read :: "MetricApiDatasetResponse list \<Rightarrow> MetricApiDatasetEntry list" where
  "entries_read [] = []"
| "entries_read (response # rest) =
     data response @ (if links_next response = None then [] else entries_read rest)"

subsection \<open>Dates\<close>

text \<open>
  A \<^verbatim>\<open>Date\<close> is read here by its calendar day only: the year, the month (from 0, as
  \<^verbatim>\<open>getMonth\<close> counts it) and the day of the month. The local time zone of the run is
  taken to be UTC, so that \<^verbatim>\<open>getMonth\<close>/\<^verbatim>\<open>setMonth\<close> (local time) and \<^verbatim>\<open>toISOString\<close>
  (UTC) see the same day, and every \<^verbatim>\<open>new Date()\<close> of one run gives the same day \<open>now\<close>.
\<close>

record Date =
  d_year :: int
  d_month :: nat
  d_date :: nat

definition leap_year :: "int \<Rightarrow> bool" where
  "leap_year y = (y mod 4 = 0 \<and> (y mod 100 \<noteq> 0 \<or> y mod 400 = 0))"

definition days_in_month :: "int \<Rightarrow> nat \<Rightarrow> nat" where
  "days_in_month y m =
     (if m = 1 then (if leap_year y then 29 else 28)
      else if m = 3 \<or> m = 5 \<or> m = 8 \<or> m = 10 then 30 else 31)"

text \<open>
  \<^verbatim>\<open>MakeDay(year, month, date)\<close> of the language definition: the month is brought into
  0..11 by carrying into the year, and the day is counted on from the first of that
  month, so a day past the end of the month falls in the next month. Written for a day
  of the month from 1 to 31, all that a date holds.
\<close>

definition MakeDay :: "int \<Rightarrow> int \<Rightarrow> nat \<Rightarrow> Date" where
  "MakeDay y m dt =
     (let ym = y + m div 12; mn = nat (m mod 12) in
      if dt \<le> days_in_month ym mn then \<lparr>d_year = ym, d_month = mn, d_date = dt\<rparr>
      else (let k = ym * 12 + int mn + 1
            in \<lparr>d_year = k div 12, d_month = nat (k mod 12),
                d_date = dt - days_in_month ym mn\<rparr>))"

definition setMonth :: "Date \<Rightarrow> int \<Rightarrow> Date" where
  "setMonth d m = MakeDay (d_year d) m (d_date d)"

definition digit_char :: "nat \<Rightarrow> char" where
  "digit_char n = char_of (48 + n)"

text \<open>The \<open>k\<close> last decimal digits of \<open>n\<close>, the most significant first.\<close>

fun pad :: "nat \<Rightarrow> nat \<Rightarrow> string" where
  "pad 0 n = []"
| "pad (Suc k) n = pad k (n div 10) @ [digit_char (n mod 10)]"

text \<open>
  \<^verbatim>\<open>toISOString().slice(0, 7)\<close>: a year from 0 to 9999 is written with four digits, any
  other year with a sign and six digits, of which the slice keeps the sign and the year.
\<close>

definition iso_month :: "Date \<Rightarrow> string" where
  "iso_month d =
     (let y = d_year d in
      if 0 \<le> y \<and> y \<le> 9999 then pad 4 (nat y) @ ''-'' @ pad 2 (d_month d + 1)
      else (if y < 0 then CHR ''-'' else CHR ''+'') # pad 6 (nat \<bar>y\<bar>))"

subsection \<open>Utilities\<close>

definition getMonthsAgo :: "Date \<Rightarrow> nat \<Rightarrow> string" where
  "getMonthsAgo now months = iso_month (setMonth now (int (d_month now) - int months))"

definition getCurrentMonth :: "Date \<Rightarrow> string" where
  "getCurrentMonth now = iso_month now"

subsection \<open>calculateGlobalStats\<close>

definition add_month :: "(string \<times> Counts) list \<Rightarrow> string \<times> Counts \<Rightarrow> (string \<times> Counts) list" where
  "add_month monthlyAggregates ms =
     (case ms of (m, stats) \<Rightarrow>
        (let cur = (case map_of monthlyAggregates m of
                      None \<Rightarrow> \<lparr>visits = 0, downloads = 0\<rparr> | Some c \<Rightarrow> c)
         in AList.update m
              \<lparr>visits = visits cur + visits stats,
               downloads = downloads cur + downloads stats\<rparr> monthlyAggregates))"

definition aggregate :: "DatasetMetrics list \<Rightarrow> (string \<times> Counts) list" where
  "aggregate allMetrics =
     foldl (\<lambda>monthlyAggregates dataset. foldl add_month monthlyAggregates (monthlyStats dataset))
       [] allMetrics"

definition to_MonthlyStats :: "string \<times> Counts \<Rightarrow> MonthlyStats" where
  "to_MonthlyStats ms =
     (case ms of (m, stats) \<Rightarrow> \<lparr>visits = visits stats, downloads = downloads stats, month = m\<rparr>)"

definition calculateGlobalStats :: "(string \<Rightarrow> 'k::linorder) \<Rightarrow> DatasetMetrics list \<Rightarrow> GlobalStats" where
  "calculateGlobalStats key allMetrics =
     (let sortedMonths =
            array_sort (\<lambda>a b. localeCompare key (fst a) (fst b)) (aggregate allMetrics)
      in \<lparr>g_totalVisits = sum_list (map totalVisits allMetrics),
          g_totalDownloads = sum_list (map totalDownloads allMetrics),
          totalDatasets = length allMetrics,
          startDate = (case sortedMonths of [] \<Rightarrow> ''2022-07''
                       | a # _ \<Rightarrow> str_or (Some (fst a)) ''2022-07''),
          g_monthlyStats = map to_MonthlyStats sortedMonths\<rparr>)"

subsection \<open>calculateTopDatasets\<close>

definition getStatsForPeriod :: "DatasetMetrics \<Rightarrow> string \<Rightarrow> string \<Rightarrow> Counts" where
  "getStatsForPeriod m startMonth endMonth =
     (let inside = filter (\<lambda>(mo, stats). mo \<ge> startMonth \<and> mo \<le> endMonth) (monthlyStats m)
      in \<lparr>visits = sum_list (map (\<lambda>(mo, stats). visits stats) inside),
          downloads = sum_list (map (\<lambda>(mo, stats). downloads stats) inside)\<rparr>)"

definition organization_name :: "DatagouvDataset \<Rightarrow> string" where
  "organization_name md = str_or (map_option org_name (ds_organization md)) ''Inconnu''"

definition organization_id :: "DatagouvDataset \<Rightarrow> string" where
  "organization_id md = str_or (map_option org_id (ds_organization md)) []"

definition createRanking ::
  "DatasetMetrics \<Rightarrow> DatagouvDataset \<Rightarrow> int \<Rightarrow> int \<Rightarrow> nat \<Rightarrow> DatasetRanking" where
  "createRanking m md v pv r =
     \<lparr>id' = datasetId m,
      title = ds_title md,
      slug = ds_slug md,
      organization = organization_name md,
      organizationId = organization_id md,
      value' = v,
      previousValue = pv,
      trend = (if pv > 0 then ((real_of_int v - real_of_int pv) / real_of_int pv) * 100 else 0),
      rank = r\<rparr>"

record PeriodConfig =
  start :: string
  prevStart :: string
  prevEnd :: string

definition periods :: "Date \<Rightarrow> Period \<Rightarrow> PeriodConfig" where
  "periods now p =
     (case p of
        Week \<Rightarrow> \<lparr>start = getMonthsAgo now 0, prevStart = getMonthsAgo now 1,
                 prevEnd = getMonthsAgo now 1\<rparr>
      | Month \<Rightarrow> \<lparr>start = getMonthsAgo now 1, prevStart = getMonthsAgo now 2,
                  prevEnd = getMonthsAgo now 2\<rparr>
      | Year \<Rightarrow> \<lparr>start = getMonthsAgo now 12, prevStart = getMonthsAgo now 24,
                 prevEnd = getMonthsAgo now 13\<rparr>
      | AllTime \<Rightarrow> \<lparr>start = ''2022-07'', prevStart = ''2022-07'', prevEnd = ''2022-07''\<rparr>)"

record WithStats =
  metrics :: DatasetMetrics
  metadata :: DatagouvDataset
  current :: Counts
  previous :: Counts

definition datasetsWithStats ::
  "Date \<Rightarrow> Period \<Rightarrow> DatasetMetrics list \<Rightarrow> (string \<times> DatagouvDataset) list \<Rightarrow> WithStats list" where
  "datasetsWithStats now p allMetrics metadataMap =
     List.map_filter
       (\<lambda>m. case map_of metadataMap (datasetId m) of
               None \<Rightarrow> None
             | Some md \<Rightarrow>
                 Some \<lparr>metrics = m, metadata = md,
                       current = getStatsForPeriod m (start (periods now p)) (getCurrentMonth now),
                       previous =
                         (if p \<noteq> AllTime
                          then getStatsForPeriod m (prevStart (periods now p)) (prevEnd (periods now p))
                          else \<lparr>visits = 0, downloads = 0\<rparr>)\<rparr>)
       allMetrics"

text \<open>\<^verbatim>\<open>xs.map((d, i) => f(d, i))\<close>.\<close>

definition map_index :: "('a \<Rightarrow> nat \<Rightarrow> 'b) \<Rightarrow> 'a list \<Rightarrow> 'b list" where
  "map_index f xs = map (\<lambda>(d, i). f d i) (zip xs [0..<length xs])"

definition calculateTopDatasets ::
  "Date \<Rightarrow> DatasetMetrics list \<Rightarrow> (string \<times> DatagouvDataset) list \<Rightarrow> TopDatasetsData" where
  "calculateTopDatasets now allMetrics metadataMap p metric =
     (let ds = datasetsWithStats now p allMetrics metadataMap in
      case metric of
        Visits \<Rightarrow>
          (let byVisits =
                 take TOP_DATASETS_COUNT
                   (array_sort (\<lambda>a b. visits (current b) - visits (current a)) ds)
           in map_index (\<lambda>d i. createRanking (metrics d) (metadata d)
                                  (visits (current d)) (visits (previous d)) (i + 1)) byVisits)
      | Downloads \<Rightarrow>
          (let byDownloads =
                 take TOP_DATASETS_COUNT
                   (array_sort (\<lambda>a b. downloads (current b) - downloads (current a)) ds)
           in map_index (\<lambda>d i. createRanking (metrics d) (metadata d)
                                  (downloads (current d)) (downloads (previous d)) (i + 1))
                byDownloads))"

subsection \<open>createDatasetsIndex, createDatasetStats\<close>

definition to_summary :: "string \<times> DatagouvDataset \<Rightarrow> DatasetSummary" where
  "to_summary e =
     (case e of (i, md) \<Rightarrow>
        \<lparr>id' = i, title = ds_title md, slug = ds_slug md,
         organization = organization_name md, organizationId = organization_id md\<rparr>)"

definition createDatasetsIndex ::
  "(string \<Rightarrow> 'k::linorder) \<Rightarrow> (string \<times> DatagouvDataset) list \<Rightarrow> DatasetSummary list" where
  "createDatasetsIndex key_fr metadataMap =
     array_sort (\<lambda>a b. localeCompare key_fr (title a) (title b)) (map to_summary metadataMap)"

definition createDatasetStats ::
  "(string \<Rightarrow> 'k::linorder) \<Rightarrow> DatasetMetrics \<Rightarrow> DatagouvDataset \<Rightarrow> DatasetStats" where
  "createDatasetStats key m md =
     (let ms = map to_MonthlyStats
                 (array_sort (\<lambda>a b. localeCompare key (fst a) (fst b)) (monthlyStats m))
      in \<lparr>id' = datasetId m,
          title = ds_title md,
          slug = ds_slug md,
          organization = organization_name md,
          organizationId = organization_id md,
          url = str_or (Some (ds_page md))
                  (''https://www.data.gouv.fr/fr/datasets/'' @ ds_slug md @ ''/''),
          s_totalVisits = totalVisits m,
          s_totalDownloads = totalDownloads m,
          s_monthlyStats = ms,
          firstMonth = (case ms of [] \<Rightarrow> [] | a # _ \<Rightarrow> month a),
          lastMonth = (if ms = [] then [] else month (last ms))\<rparr>)"

subsection \<open>main\<close>

text \<open>
  The run of the full synchronisation on the identifiers that \<^verbatim>\<open>fetchAllDatasetIds\<close>
  returned, up to the three aggregates it computes. \<open>metricApi\<close> gives the pages of a
  dataset, \<open>resolver\<close> is \<^verbatim>\<open>fetchDatasetMetadata\<close>: the metadata of a dataset, or null when
  the request fails. A dataset whose metrics cannot be read is skipped.
\<close>

definition fetchAllMetrics ::
  "(string \<Rightarrow> MetricApiDatasetResponse list) \<Rightarrow> string list \<Rightarrow> DatasetMetrics list" where
  "fetchAllMetrics metricApi datasetIds =
     List.map_filter
       (\<lambda>i. case fetchDatasetMetrics i (metricApi i) of Inl e \<Rightarrow> None | Inr m \<Rightarrow> Some m)
       datasetIds"

definition fetchAllMetadata ::
  "(string \<Rightarrow> DatagouvDataset option) \<Rightarrow> DatasetMetrics list \<Rightarrow> (string \<times> DatagouvDataset) list" where
  "fetchAllMetadata resolver allMetrics =
     foldl (\<lambda>metadataMap m.
              case resolver (datasetId m) of
                None \<Rightarrow> metadataMap
              | Some md \<Rightarrow> AList.update (datasetId m) md metadataMap)
       [] allMetrics"

record SyncOutput =
  out_globalStats :: GlobalStats
  out_topDatasets :: TopDatasetsData
  out_datasetsIndex :: "DatasetSummary list"

definition main ::
  "(string \<Rightarrow> 'k::linorder) \<Rightarrow> (string \<Rightarrow> 'l::linorder) \<Rightarrow> Date \<Rightarrow>
   (string \<Rightarrow> MetricApiDatasetResponse list) \<Rightarrow> (string \<Rightarrow> DatagouvDataset option) \<Rightarrow>
   string list \<Rightarrow> SyncOutput" where
  "main key key_fr now metricApi resolver datasetIds =
     (let allMetrics = fetchAllMetrics metricApi datasetIds;
          metadataMap = fetchAllMetadata resolver allMetrics
      in \<lparr>out_globalStats = calculateGlobalStats key allMetrics,
          out_topDatasets = calculateTopDatasets now allMetrics metadataMap,
          out_datasetsIndex = createDatasetsIndex key_fr metadataMap\<rparr>)"

section \<open>scripts/sync-incremental.ts\<close>

subsection \<open>getNextMonth, getMonthsToFetch\<close>

definition digit_val :: "char \<Rightarrow> nat option" where
  "digit_val c = (let n = of_char c in if 48 \<le> n \<and> n \<le> (57::nat) then Some (n - 48) else None)"

text \<open>\<^verbatim>\<open>Number(s)\<close> on a run of decimal digits that is not empty; \<open>None\<close> on any other string.\<close>

fun digits_val :: "nat \<Rightarrow> string \<Rightarrow> nat option" where
  "digits_val acc [] = Some acc"
| "digits_val acc (c # cs) =
     (case digit_val c of None \<Rightarrow> None | Some d \<Rightarrow> digits_val (10 * acc + d) cs)"

definition Number :: "string \<Rightarrow> nat option" where
  "Number s = (if s = [] then None else digits_val 0 s)"

text \<open>
  \<^verbatim>\<open>month.split('-').map(Number)\<close> on a month written as digits, \<^verbatim>\<open>-\<close>, digits, which is what
  \<^verbatim>\<open>"YYYY-MM"\<close> is. On any other string the result is \<open>None\<close>: the model does not follow
  the script there.
\<close>

definition split_month :: "string \<Rightarrow> (nat \<times> nat) option" where
  "split_month s =
     (case dropWhile (\<lambda>c. c \<noteq> CHR ''-'') s of
        [] \<Rightarrow> None
      | _ # rest \<Rightarrow>
          (case (Number (takeWhile (\<lambda>c. c \<noteq> CHR ''-'') s), Number rest) of
             (Some y, Some mn) \<Rightarrow> Some (y, mn)
           | _ \<Rightarrow> None))"

text \<open>
  \<^verbatim>\<open>new Date(Date.UTC(year, monthNum, 1))\<close>: a year from 0 to 99 stands for 1900 + year, and
  a day after September 275760 is no date, on which \<^verbatim>\<open>toISOString\<close> throws.
\<close>

definition Date_UTC :: "nat \<Rightarrow> nat \<Rightarrow> Date option" where
  "Date_UTC y mn =
     (let yr = (if y \<le> 99 then 1900 + int y else int y); d = MakeDay yr (int mn) 1
      in if d_year d * 12 + int (d_month d) \<le> 275760 * 12 + 8 then Some d else None)"

definition getNextMonth :: "string \<Rightarrow> string option" where
  "getNextMonth m =
     (case split_month m of
        None \<Rightarrow> None
      | Some (y, monthNum) \<Rightarrow> map_option iso_month (Date_UTC y monthNum))"

text \<open>
  The loop of \<^verbatim>\<open>getMonthsToFetch\<close>; \<open>None\<close> is a run that throws or does not come back.
\<close>

partial_function (option) months_loop :: "string \<Rightarrow> string \<Rightarrow> string list \<Rightarrow> string list option" where
  "months_loop now cur months =
     (if cur \<le> now
      then Option.bind (getNextMonth cur) (\<lambda>nxt. months_loop now nxt (months @ [cur]))
      else Some months)"

definition getMonthsToFetch :: "Date \<Rightarrow> string \<Rightarrow> string list option" where
  "getMonthsToFetch now lastKnown =
     Option.bind (getNextMonth lastKnown) (\<lambda>cur. months_loop (getCurrentMonth now) cur [])"

subsection \<open>fetchNewMonthData\<close>

record DatasetMonthlyUpdate = MonthlyStats +
  upd_datasetId :: string

definition to_update :: "MetricApiDatasetEntry \<Rightarrow> DatasetMonthlyUpdate" where
  "to_update entry =
     \<lparr>visits = monthly_visit entry,
      downloads = num_or_zero (monthly_download_resource entry),
      month = metric_month entry,
      upd_datasetId = dataset_id entry\<rparr>"

fun fetch_updates ::
  "DatasetMonthlyUpdate list \<Rightarrow> MetricApiDatasetResponse list \<Rightarrow> error + DatasetMonthlyUpdate list" where
  "fetch_updates updates [] = Inl FetchError"
| "fetch_updates updates (response # rest) =
     (let updates' = updates @ map to_update (data response)
      in if links_next response = None then Inr updates'
         else fetch_updates updates' rest)"

definition fetchNewMonthData :: "MetricApiDatasetResponse list \<Rightarrow> error + DatasetMonthlyUpdate list" where
  "fetchNewMonthData responses = fetch_updates [] responses"

subsection \<open>mergeMonthlyData, updateGlobalStats, updateDatasetStats\<close>

definition load_existing :: "MonthlyStats list \<Rightarrow> (string \<times> Counts) list" where
  "load_existing existing =
     foldl (\<lambda>monthMap stat.
              AList.update (month stat) \<lparr>visits = visits stat, downloads = downloads stat\<rparr> monthMap)
       [] existing"

definition add_update :: "(string \<times> Counts) list \<Rightarrow> DatasetMonthlyUpdate \<Rightarrow> (string \<times> Counts) list" where
  "add_update monthMap u =
     (let cur = (case map_of monthMap (month u) of
                   None \<Rightarrow> \<lparr>visits = 0, downloads = 0\<rparr> | Some c \<Rightarrow> c)
      in AList.update (month u)
           \<lparr>visits = visits cur + visits u, downloads = downloads cur + downloads u\<rparr> monthMap)"

definition sorted_stats :: "(string \<Rightarrow> 'k::linorder) \<Rightarrow> (string \<times> Counts) list \<Rightarrow> MonthlyStats list" where
  "sorted_stats key monthMap =
     map to_MonthlyStats (array_sort (\<lambda>a b. localeCompare key (fst a) (fst b)) monthMap)"

definition mergeMonthlyData ::
  "(string \<Rightarrow> 'k::linorder) \<Rightarrow> MonthlyStats list \<Rightarrow> DatasetMonthlyUpdate list \<Rightarrow> MonthlyStats list" where
  "mergeMonthlyData key existing newUpdates =
     sorted_stats key (foldl add_update (load_existing existing) newUpdates)"

definition updateGlobalStats ::
  "(string \<Rightarrow> 'k::linorder) \<Rightarrow> GlobalStats \<Rightarrow> DatasetMonthlyUpdate list \<Rightarrow> nat \<Rightarrow> GlobalStats" where
  "updateGlobalStats key existing allUpdates n =
     (let mergedMonthly = mergeMonthlyData key (g_monthlyStats existing) allUpdates
      in \<lparr>g_totalVisits = foldl (\<lambda>sum m. sum + visits m) 0 mergedMonthly,
          g_totalDownloads = foldl (\<lambda>sum m. sum + downloads m) 0 mergedMonthly,
          totalDatasets = n,
          startDate = startDate existing,
          g_monthlyStats = mergedMonthly\<rparr>)"

text \<open>
  \<open>existing\<close> is what \<^verbatim>\<open>loadDatasetStats(datasetId)\<close> reads: the record of the dataset in
  \<^verbatim>\<open>public/data/datasets\<close>, or null.
\<close>

definition updateDatasetStats ::
  "(string \<Rightarrow> 'k::linorder) \<Rightarrow> DatasetStats option \<Rightarrow> string \<Rightarrow> DatasetMonthlyUpdate list \<Rightarrow>
   DatagouvDataset \<Rightarrow> DatasetStats" where
  "updateDatasetStats key existing did newData md =
     (let monthlyMap =
            foldl add_update
              (case existing of None \<Rightarrow> [] | Some ex \<Rightarrow> load_existing (s_monthlyStats ex))
              (filter (\<lambda>u. upd_datasetId u = did) newData);
          ms = sorted_stats key monthlyMap
      in \<lparr>id' = did,
          title = ds_title md,
          slug = ds_slug md,
          organization = organization_name md,
          organizationId = organization_id md,
          url = str_or (Some (ds_page md))
                  (''https://www.data.gouv.fr/fr/datasets/'' @ ds_slug md @ ''/''),
          s_totalVisits = foldl (\<lambda>sum s. sum + visits s) 0 ms,
          s_totalDownloads = foldl (\<lambda>sum s. sum + downloads s) 0 ms,
          s_monthlyStats = ms,
          firstMonth = (case ms of [] \<Rightarrow> [] | a # _ \<Rightarrow> month a),
          lastMonth = (if ms = [] then [] else month (last ms))\<rparr>)"

subsection \<open>updateDatasetsIndex\<close>

definition updateDatasetsIndex ::
  "(string \<Rightarrow> 'k::linorder) \<Rightarrow> DatasetSummary list option \<Rightarrow> (string \<times> DatagouvDataset) list \<Rightarrow>
   DatasetSummary list" where
  "updateDatasetsIndex key_fr existing newMetadata =
     (let loaded = foldl (\<lambda>datasetsMap dataset. AList.update (id' dataset) dataset datasetsMap) []
                     (case existing of None \<Rightarrow> [] | Some ds \<Rightarrow> ds);
          datasetsMap = foldl (\<lambda>datasetsMap e. AList.update (fst e) (to_summary e) datasetsMap)
                          loaded newMetadata
      in array_sort (\<lambda>a b. localeCompare key_fr (title a) (title b)) (map snd datasetsMap))"

subsection \<open>main\<close>

text \<open>
  The files of \<^verbatim>\<open>public/data\<close>, and the start of the incremental run: it reads the global
  statistics, finds the months to fetch and returns at once when there is none. What the
  run does with the months it found (steps 3 to 9 of \<^verbatim>\<open>main\<close>) is the parameter \<open>steps\<close>.
  A run that throws ends in \<open>Fatal\<close>.
\<close>

record Store =
  file_globalStats :: "GlobalStats option"
  file_topDatasets :: "TopDatasetsData option"
  file_datasetsIndex :: "DatasetSummary list option"
  file_datasets :: "(string \<times> DatasetStats) list"

datatype outcome = NoExistingData | UpToDate | Synced | Fatal

definition main_incremental ::
  "(string list \<Rightarrow> Store \<Rightarrow> outcome \<times> Store) \<Rightarrow> Date \<Rightarrow> Store \<Rightarrow> outcome \<times> Store" where
  "main_incremental steps now store =
     (case file_globalStats store of
        None \<Rightarrow> (NoExistingData, store)
      | Some globalStats \<Rightarrow>
          (if g_monthlyStats globalStats = [] then (Fatal, store)
           else
             (case getMonthsToFetch now (month (last (g_monthlyStats globalStats))) of
                None \<Rightarrow> (Fatal, store)
              | Some monthsToFetch \<Rightarrow>
                  if length monthsToFetch = 0 then (UpToDate, store)
                  else steps monthsToFetch store)))"

section \<open>Reading aids\<close>

text \<open>The value a series holds at a month, 0 where the month is absent.\<close>

definition visits_at :: "(string \<times> Counts) list \<Rightarrow> string \<Rightarrow> int" where
  "visits_at ms mo = (case map_of ms mo of None \<Rightarrow> 0 | Some c \<Rightarrow> visits c)"

definition downloads_at :: "(string \<times> Counts) list \<Rightarrow> string \<Rightarrow> int" where
  "downloads_at ms mo = (case map_of ms mo of None \<Rightarrow> 0 | Some c \<Rightarrow> downloads c)"

text \<open>The same for a stored series, a list of monthly records.\<close>

definition stat_visits :: "MonthlyStats list \<Rightarrow> string \<Rightarrow> int" where
  "stat_visits xs mo = (case find (\<lambda>s. month s = mo) xs of None \<Rightarrow> 0 | Some s \<Rightarrow> visits s)"

definition stat_downloads :: "MonthlyStats list \<Rightarrow> string \<Rightarrow> int" where
  "stat_downloads xs mo = (case find (\<lambda>s. month s = mo) xs of None \<Rightarrow> 0 | Some s \<Rightarrow> downloads s)"

text \<open>The metric that a ranking list is about.\<close>

definition metric_of :: "Metric \<Rightarrow> Counts \<Rightarrow> int" where
  "metric_of metric c = (case metric of Visits \<Rightarrow> visits c | Downloads \<Rightarrow> downloads c)"

text \<open>The value of an entity in the current window of a period.\<close>

definition window_value :: "Date \<Rightarrow> Period \<Rightarrow> Metric \<Rightarrow> DatasetMetrics \<Rightarrow> int" where
  "window_value now p metric m =
     metric_of metric (getStatsForPeriod m (start (periods now p)) (getCurrentMonth now))"

text \<open>
  Months counted from year 0: the month number \<open>k\<close> is month \<open>k mod 12 + 1\<close> of year
  \<open>k div 12\<close>, written \<^verbatim>\<open>YYYY-MM\<close>.
\<close>

definition month_string :: "nat \<Rightarrow> string" where
  "month_string k = pad 4 (k div 12) @ ''-'' @ pad 2 (k mod 12 + 1)"

definition month_number :: "Date \<Rightarrow> nat" where
  "month_number d = nat (d_year d) * 12 + d_month d"

text \<open>The series that a stored record of detailed statistics holds, none for no record.\<close>

definition series_of :: "DatasetStats option \<Rightarrow> MonthlyStats list" where
  "series_of existing = (case existing of None \<Rightarrow> [] | Some ex \<Rightarrow> s_monthlyStats ex)"

text \<open>What a batch of updates brings to an entity at a month.\<close>

definition batch_visits :: "DatasetMonthlyUpdate list \<Rightarrow> string \<Rightarrow> string \<Rightarrow> int" where
  "batch_visits us did mo =
     (\<Sum>u\<leftarrow>us. if upd_datasetId u = did \<and> month u = mo then visits u else 0)"

definition batch_downloads :: "DatasetMonthlyUpdate list \<Rightarrow> string \<Rightarrow> string \<Rightarrow> int" where
  "batch_downloads us did mo =
     (\<Sum>u\<leftarrow>us. if upd_datasetId u = did \<and> month u = mo then downloads u else 0)"

text \<open>The list that is ranked: the entities in the order of choice, the first 100.\<close>

definition ranked :: "Date \<Rightarrow> Period \<Rightarrow> Metric \<Rightarrow> DatasetMetrics list \<Rightarrow> (string \<times> DatagouvDataset) list \<Rightarrow> WithStats list" where
  "ranked now p metric am mm =
     take TOP_DATASETS_COUNT
       (sort_key (\<lambda>d. - metric_of metric (current d)) (datasetsWithStats now p am mm))"

section \<open>An example run\<close>

text \<open>
  A run on 15 March 2024 over three datasets: \<open>a\<close>, without an organization; \<open>b\<close>, which
  has the visits of \<open>a\<close> in March; and \<open>c\<close>, whose metadata cannot be fetched.
\<close>

definition ex_now :: Date where
  "ex_now = \<lparr>d_year = 2024, d_month = 2, d_date = 15\<rparr>"

definition ex_entry :: "string \<Rightarrow> string \<Rightarrow> int \<Rightarrow> int option \<Rightarrow> MetricApiDatasetEntry" where
  "ex_entry i m v d =
     \<lparr>dataset_id = i, metric_month = m, monthly_visit = v, monthly_download_resource = d\<rparr>"

definition ex_api :: "string \<Rightarrow> MetricApiDatasetResponse list" where
  "ex_api i =
     (if i = ''a'' then
        [\<lparr>data = [ex_entry ''a'' ''2024-01'' 10 (Some 1), ex_entry ''a'' ''2024-02'' 200 (Some 2)],
          links_next = Some ''page=2''\<rparr>,
         \<lparr>data = [ex_entry ''a'' ''2024-03'' 300 (Some 3)], links_next = None\<rparr>]
      else if i = ''b'' then
        [\<lparr>data = [ex_entry ''b'' ''2024-03'' 300 None], links_next = None\<rparr>]
      else if i = ''c'' then
        [\<lparr>data = [ex_entry ''c'' ''2024-03'' 500 (Some 9)], links_next = None\<rparr>]
      else [])"

definition ex_metrics :: "DatasetMetrics list" where
  "ex_metrics =
     [\<lparr>datasetId = ''a'',
       monthlyStats = [(''2024-01'', \<lparr>visits = 10, downloads = 1\<rparr>),
                       (''2024-02'', \<lparr>visits = 200, downloads = 2\<rparr>),
                       (''2024-03'', \<lparr>visits = 300, downloads = 3\<rparr>)],
       totalVisits = 510, totalDownloads = 6\<rparr>,
      \<lparr>datasetId = ''b'',
       monthlyStats = [(''2024-03'', \<lparr>visits = 300, downloads = 0\<rparr>)],
       totalVisits = 300, totalDownloads = 0\<rparr>,
      \<lparr>datasetId = ''c'',
       monthlyStats = [(''2024-03'', \<lparr>visits = 500, downloads = 9\<rparr>)],
       totalVisits = 500, totalDownloads = 9\<rparr>]"

definition ex_metadata :: "(string \<times> DatagouvDataset) list" where
  "ex_metadata =
     [(''a'', \<lparr>ds_title = ''Agriculture'', ds_slug = ''agriculture'', ds_page = [],
              ds_organization = None\<rparr>),
      (''b'', \<lparr>ds_title = ''Budget'', ds_slug = ''budget'', ds_page = ''https://b'',
              ds_organization = Some \<lparr>org_id = ''o1'', org_name = ''Org''\<rparr>\<rparr>)]"

definition ex_resolver :: "string \<Rightarrow> DatagouvDataset option" where
  "ex_resolver i = map_of ex_metadata i"

text \<open>The collation of the example is the order of the code units.\<close>

definition ex_key :: "string \<Rightarrow> string" where
  "ex_key s = s"

text \<open>
  A collation for the examples that, as the French one does at its first level, takes
  no account of the accent and of the case of the letters it knows.
\<close>

definition ex_fold :: "char \<Rightarrow> char" where
  "ex_fold c =
     (if c = CHR 0xC9 \<or> c = CHR ''E'' then CHR ''e''
      else if c = CHR ''A'' then CHR ''a''
      else if c = CHR ''Z'' then CHR ''z''
      else c)"

definition ex_key_fr :: "string \<Rightarrow> string" where
  "ex_key_fr s = map ex_fold s"

text \<open>Metadata with a title only, and three titles with accents.\<close>

definition ex_dataset :: "string \<Rightarrow> DatagouvDataset" where
  "ex_dataset t = \<lparr>ds_title = t, ds_slug = [], ds_page = [], ds_organization = None\<rparr>"

definition Election :: string where
  "Election = CHR 0xC9 # ''lection''"

definition Energie :: string where
  "Energie = CHR 0xC9 # ''nergie''"

text \<open>
  A stored record of \<open>a\<close> (its three months of the example run) and a batch of updates:
  two records for \<open>a\<close> in the new month April, on different pages, one for \<open>b\<close>, and one
  for \<open>a\<close> in March, a month that the stored record has already.
\<close>

definition ex_stored :: DatasetStats where
  "ex_stored = createDatasetStats ex_key (ex_metrics ! 0) (snd (ex_metadata ! 0))"

definition ex_update :: "string \<Rightarrow> string \<Rightarrow> int \<Rightarrow> int \<Rightarrow> DatasetMonthlyUpdate" where
  "ex_update i m v d = \<lparr>visits = v, downloads = d, month = m, upd_datasetId = i\<rparr>"

definition ex_updates :: "DatasetMonthlyUpdate list" where
  "ex_updates =
     [ex_update ''a'' ''2024-04'' 5 1, ex_update ''b'' ''2024-04'' 100 0,
      ex_update ''a'' ''2024-04'' 7 0, ex_update ''a'' ''2024-03'' 1 0]"

text \<open>
  A second run, over 101 datasets \<open>000\<close> to \<open>100\<close> that all have metadata: the dataset
  \<open>n\<close> has \<open>n\<close> visits in March 2024.
\<close>

definition ex_many :: "DatasetMetrics list" where
  "ex_many =
     map (\<lambda>n. \<lparr>datasetId = pad 3 n,
               monthlyStats = [(''2024-03'', \<lparr>visits = int n, downloads = 0\<rparr>)],
               totalVisits = int n, totalDownloads = 0\<rparr>) [0..<101]"

definition ex_many_metadata :: "(string \<times> DatagouvDataset) list" where
  "ex_many_metadata = map (\<lambda>m. (datasetId m, ex_dataset (datasetId m))) ex_many"

text \<open>
  The stored files after the example run, with the global statistics only; and the last
  day of March 2024.
\<close>

definition ex_store :: Store where
  "ex_store =
     \<lparr>file_globalStats = Some (calculateGlobalStats ex_key ex_metrics),
      file_topDatasets = None, file_datasetsIndex = None, file_datasets = []\<rparr>"

definition ex_steps :: "string list \<Rightarrow> Store \<Rightarrow> outcome \<times> Store" where
  "ex_steps monthsToFetch store = (Synced, store)"

definition ex_31st :: Date where
  "ex_31st = \<lparr>d_year = 2024, d_month = 2, d_date = 31\<rparr>"

section \<open>Properties\<close>

subsection \<open>Reading the pages of one dataset\<close>






subsection \<open>Sorting\<close>

lemma set_insert_by: "set (insert_by cmp x ys) = insert x (set ys)"
  by (induction ys) auto

lemma set_array_sort: "set (array_sort cmp xs) = set xs"
  by (induction xs) (auto simp: array_sort_def set_insert_by)

lemma length_insert_by: "length (insert_by cmp x ys) = Suc (length ys)"
  by (induction ys) auto

lemma length_array_sort: "length (array_sort cmp xs) = length xs"
  by (induction xs) (auto simp: array_sort_def length_insert_by)

lemma insert_by_insort_key:
  "(\<And>a b. cmp a b \<le> 0 \<longleftrightarrow> f a \<le> f b) \<Longrightarrow> insert_by cmp x ys = insort_key f x ys"
  by (induction ys) auto

lemma array_sort_sort_key:
  "(\<And>a b. cmp a b \<le> 0 \<longleftrightarrow> f a \<le> f b) \<Longrightarrow> array_sort cmp xs = sort_key f xs"
  by (induction xs) (auto simp: array_sort_def sort_key_def insert_by_insort_key)

lemma localeCompare_le: "localeCompare key a b \<le> 0 \<longleftrightarrow> key a \<le> key b"
  by (auto simp: localeCompare_def)

lemma array_sort_localeCompare:
  "array_sort (\<lambda>a b. localeCompare key (f a) (f b)) xs = sort_key (\<lambda>a. key (f a)) xs"
  by (rule array_sort_sort_key) (simp add: localeCompare_le)

lemma array_sort_descending:
  "array_sort (\<lambda>a b. f b - f a) xs = sort_key (\<lambda>a. - f a) xs" for f :: "'a \<Rightarrow> int"
  by (rule array_sort_sort_key) auto

lemma length_map_index: "length (map_index f xs) = length xs"
  by (simp add: map_index_def)

lemma nth_map_index: "i < length xs \<Longrightarrow> map_index f xs ! i = f (xs ! i) i"
  by (simp add: map_index_def)

lemma in_set_map_index:
  assumes "r \<in> set (map_index f xs)"
  shows "\<exists>i < length xs. r = f (xs ! i) i"
proof -
  from assms obtain i where "i < length (map_index f xs)" and "map_index f xs ! i = r"
    by (auto simp: in_set_conv_nth)
  then show ?thesis
    by (auto simp: length_map_index nth_map_index)
qed

subsection \<open>The entries of a ranking list\<close>

lemma datasetsWithStats_entry:
  assumes "d \<in> set (datasetsWithStats now p am mm)"
  shows "metrics d \<in> set am"
    and "map_of mm (datasetId (metrics d)) = Some (metadata d)"
    and "current d = getStatsForPeriod (metrics d) (start (periods now p)) (getCurrentMonth now)"
    and "p = AllTime \<Longrightarrow> previous d = \<lparr>visits = 0, downloads = 0\<rparr>"
  using assms by (auto simp: datasetsWithStats_def List.map_filter_def split: option.splits)

lemma calculateTopDatasets_ranked:
  "calculateTopDatasets now am mm p metric =
     map_index (\<lambda>d i. createRanking (metrics d) (metadata d)
                         (metric_of metric (current d)) (metric_of metric (previous d)) (i + 1))
       (ranked now p metric am mm)"
  by (cases metric)
     (simp_all add: calculateTopDatasets_def ranked_def metric_of_def array_sort_descending Let_def)

lemma ranked_subset:
  "set (ranked now p metric am mm) \<subseteq> set (datasetsWithStats now p am mm)"
proof -
  have "set (ranked now p metric am mm)
          \<subseteq> set (sort_key (\<lambda>d. - metric_of metric (current d)) (datasetsWithStats now p am mm))"
    unfolding ranked_def by (rule set_take_subset)
  then show ?thesis by simp
qed

lemma ranking_entry:
  assumes "r \<in> set (calculateTopDatasets now am mm p metric)"
  shows "\<exists>d k. d \<in> set (datasetsWithStats now p am mm)
           \<and> r = createRanking (metrics d) (metadata d)
                   (metric_of metric (current d)) (metric_of metric (previous d)) k"
proof -
  from assms obtain i where i: "i < length (ranked now p metric am mm)"
    and r: "r = createRanking (metrics (ranked now p metric am mm ! i))
                  (metadata (ranked now p metric am mm ! i))
                  (metric_of metric (current (ranked now p metric am mm ! i)))
                  (metric_of metric (previous (ranked now p metric am mm ! i))) (i + 1)"
    unfolding calculateTopDatasets_ranked by (blast dest: in_set_map_index)
  from i have "ranked now p metric am mm ! i \<in> set (datasetsWithStats now p am mm)"
    using ranked_subset nth_mem by blast
  with r show ?thesis by blast
qed

subsection \<open>The global series\<close>

lemma map_of_add_month:
  "map_of (add_month agg (mo, c)) =
     (map_of agg)(mo \<mapsto> \<lparr>visits = visits_at agg mo + visits c,
                           downloads = downloads_at agg mo + downloads c\<rparr>)"
  by (auto simp: add_month_def update_conv' visits_at_def downloads_at_def Let_def
           split: option.splits)

lemma visits_at_add_month:
  "visits_at (add_month agg (mo, c)) k = visits_at agg k + (if k = mo then visits c else 0)"
  by (simp add: visits_at_def [of "add_month agg (mo, c)"] map_of_add_month)
     (simp add: visits_at_def)

lemma downloads_at_add_month:
  "downloads_at (add_month agg (mo, c)) k =
     downloads_at agg k + (if k = mo then downloads c else 0)"
  by (simp add: downloads_at_def [of "add_month agg (mo, c)"] map_of_add_month)
     (simp add: downloads_at_def)

lemma visits_at_distinct:
  "distinct (map fst ms) \<Longrightarrow>
     (\<Sum>(mo, c)\<leftarrow>ms. if k = mo then visits c else 0) = visits_at ms k"
proof (induction ms)
  case Nil
  then show ?case by (simp add: visits_at_def)
next
  case (Cons a ms)
  obtain mo c where a: "a = (mo, c)" by (cases a)
  show ?case
  proof (cases "k = mo")
    case True
    with Cons.prems a have "map_of ms k = None"
      by (simp add: map_of_eq_None_iff)
    with Cons a True show ?thesis by (simp add: visits_at_def)
  next
    case False
    with Cons a show ?thesis by (simp add: visits_at_def)
  qed
qed

lemma downloads_at_distinct:
  "distinct (map fst ms) \<Longrightarrow>
     (\<Sum>(mo, c)\<leftarrow>ms. if k = mo then downloads c else 0) = downloads_at ms k"
proof (induction ms)
  case Nil
  then show ?case by (simp add: downloads_at_def)
next
  case (Cons a ms)
  obtain mo c where a: "a = (mo, c)" by (cases a)
  show ?case
  proof (cases "k = mo")
    case True
    with Cons.prems a have "map_of ms k = None"
      by (simp add: map_of_eq_None_iff)
    with Cons a True show ?thesis by (simp add: downloads_at_def)
  next
    case False
    with Cons a show ?thesis by (simp add: downloads_at_def)
  qed
qed

lemma visits_at_foldl_add_month:
  "visits_at (foldl add_month agg ms) k =
     visits_at agg k + (\<Sum>(mo, c)\<leftarrow>ms. if k = mo then visits c else 0)"
proof (induction ms arbitrary: agg)
  case Nil
  then show ?case by simp
next
  case (Cons a ms)
  obtain mo c where a: "a = (mo, c)" by (cases a)
  show ?case by (simp add: a Cons.IH visits_at_add_month)
qed

lemma downloads_at_foldl_add_month:
  "downloads_at (foldl add_month agg ms) k =
     downloads_at agg k + (\<Sum>(mo, c)\<leftarrow>ms. if k = mo then downloads c else 0)"
proof (induction ms arbitrary: agg)
  case Nil
  then show ?case by simp
next
  case (Cons a ms)
  obtain mo c where a: "a = (mo, c)" by (cases a)
  show ?case by (simp add: a Cons.IH downloads_at_add_month)
qed

lemma visits_at_foldl_datasets:
  assumes "\<forall>d \<in> set am. distinct (map fst (monthlyStats d))"
  shows "visits_at (foldl (\<lambda>agg d. foldl add_month agg (monthlyStats d)) agg0 am) k =
     visits_at agg0 k + (\<Sum>d\<leftarrow>am. visits_at (monthlyStats d) k)"
  using assms
proof (induction am arbitrary: agg0)
  case Nil
  then show ?case by simp
next
  case (Cons d am)
  then show ?case
    by (simp add: visits_at_foldl_add_month visits_at_distinct)
qed

lemma downloads_at_foldl_datasets:
  assumes "\<forall>d \<in> set am. distinct (map fst (monthlyStats d))"
  shows "downloads_at (foldl (\<lambda>agg d. foldl add_month agg (monthlyStats d)) agg0 am) k =
     downloads_at agg0 k + (\<Sum>d\<leftarrow>am. downloads_at (monthlyStats d) k)"
  using assms
proof (induction am arbitrary: agg0)
  case Nil
  then show ?case by simp
next
  case (Cons d am)
  then show ?case
    by (simp add: downloads_at_foldl_add_month downloads_at_distinct)
qed

lemma distinct_add_month:
  "distinct (map fst agg) \<Longrightarrow> distinct (map fst (add_month agg e))"
  by (cases e) (simp add: add_month_def Let_def distinct_update)

lemma distinct_foldl_add_month:
  "distinct (map fst agg) \<Longrightarrow> distinct (map fst (foldl add_month agg ms))"
  by (induction ms arbitrary: agg) (simp_all add: distinct_add_month)

lemma distinct_aggregate: "distinct (map fst (aggregate am))"
proof -
  have "distinct (map fst agg0) \<Longrightarrow>
      distinct (map fst (foldl (\<lambda>agg d. foldl add_month agg (monthlyStats d)) agg0 am))"
    for agg0
    by (induction am arbitrary: agg0) (simp_all add: distinct_foldl_add_month)
  from this [of "[]"] show ?thesis by (simp add: aggregate_def)
qed

lemma keys_add_month: "fst ` set (add_month agg e) = insert (fst e) (fst ` set agg)"
  by (cases e) (simp add: add_month_def Let_def dom_update)

lemma keys_foldl_add_month:
  "fst ` set (foldl add_month agg ms) = fst ` set agg \<union> fst ` set ms"
  by (induction ms arbitrary: agg) (auto simp: keys_add_month)

lemma keys_aggregate: "fst ` set (aggregate am) = (\<Union>d \<in> set am. fst ` set (monthlyStats d))"
proof -
  have "fst ` set (foldl (\<lambda>agg d. foldl add_month agg (monthlyStats d)) agg0 am) =
      fst ` set agg0 \<union> (\<Union>d \<in> set am. fst ` set (monthlyStats d))" for agg0
    by (induction am arbitrary: agg0) (auto simp: keys_foldl_add_month)
  from this [of "[]"] show ?thesis by (simp add: aggregate_def)
qed

lemma global_entry:
  assumes "e \<in> set (g_monthlyStats (calculateGlobalStats key am))"
  shows "visits e = visits_at (aggregate am) (month e)"
    and "downloads e = downloads_at (aggregate am) (month e)"
proof -
  from assms obtain mo c where mc: "(mo, c) \<in> set (aggregate am)"
    and e: "e = to_MonthlyStats (mo, c)"
    by (auto simp: calculateGlobalStats_def Let_def set_array_sort)
  from mc have "map_of (aggregate am) mo = Some c"
    by (simp add: distinct_aggregate)
  with e show "visits e = visits_at (aggregate am) (month e)"
    and "downloads e = downloads_at (aggregate am) (month e)"
    by (simp_all add: to_MonthlyStats_def visits_at_def downloads_at_def)
qed

lemma global_months:
  "map month (g_monthlyStats (calculateGlobalStats key am)) =
     map fst (sort_key (\<lambda>a. key (fst a)) (aggregate am))"
  by (simp add: calculateGlobalStats_def Let_def array_sort_localeCompare to_MonthlyStats_def
        comp_def case_prod_beta)

lemma distinct_global_months:
  "distinct (map month (g_monthlyStats (calculateGlobalStats key am)))"
  using distinct_aggregate [of am] by (simp add: global_months distinct_map)

lemma global_entry_sum:
  assumes "\<forall>d \<in> set am. distinct (map fst (monthlyStats d))"
    and e: "e \<in> set (g_monthlyStats (calculateGlobalStats key am))"
  shows "visits e = (\<Sum>d\<leftarrow>am. visits_at (monthlyStats d) (month e))"
    and "downloads e = (\<Sum>d\<leftarrow>am. downloads_at (monthlyStats d) (month e))"
proof -
  from visits_at_foldl_datasets [OF assms(1), of "[]"]
  show "visits e = (\<Sum>d\<leftarrow>am. visits_at (monthlyStats d) (month e))"
    by (simp add: global_entry(1) [OF e] aggregate_def [symmetric]) (simp add: visits_at_def)
  from downloads_at_foldl_datasets [OF assms(1), of "[]"]
  show "downloads e = (\<Sum>d\<leftarrow>am. downloads_at (monthlyStats d) (month e))"
    by (simp add: global_entry(2) [OF e] aggregate_def [symmetric]) (simp add: downloads_at_def)
qed

text \<open>
  C2. For every month present in the global series that \<^verbatim>\<open>calculateGlobalStats\<close>
  computes, the visits of the global series at that month are the sum, over all entity
  series, of their visits at the month, and likewise for the downloads; each month is
  present once, and the months present are those of the entity series. The series of an
  entity is a \<^verbatim>\<open>Map\<close>: its months are distinct.
\<close>

theorem global_series_is_sum_of_entity_series:
  assumes "\<forall>d \<in> set allMetrics. distinct (map fst (monthlyStats d))"
  shows "(\<forall>e \<in> set (g_monthlyStats (calculateGlobalStats key allMetrics)).
            visits e = (\<Sum>d\<leftarrow>allMetrics. visits_at (monthlyStats d) (month e))
          \<and> downloads e = (\<Sum>d\<leftarrow>allMetrics. downloads_at (monthlyStats d) (month e)))
       \<and> distinct (map month (g_monthlyStats (calculateGlobalStats key allMetrics)))
       \<and> set (map month (g_monthlyStats (calculateGlobalStats key allMetrics))) =
           (\<Union>d \<in> set allMetrics. fst ` set (monthlyStats d))"
proof (intro conjI ballI)
  fix e
  assume e: "e \<in> set (g_monthlyStats (calculateGlobalStats key allMetrics))"
  show "visits e = (\<Sum>d\<leftarrow>allMetrics. visits_at (monthlyStats d) (month e))"
    by (rule global_entry_sum(1) [OF assms e])
  show "downloads e = (\<Sum>d\<leftarrow>allMetrics. downloads_at (monthlyStats d) (month e))"
    by (rule global_entry_sum(2) [OF assms e])
next
  show "distinct (map month (g_monthlyStats (calculateGlobalStats key allMetrics)))"
    by (rule distinct_global_months)
next
  have "set (map fst (sort_key (\<lambda>a. key (fst a)) (aggregate allMetrics))) =
      fst ` set (aggregate allMetrics)"
    by simp
  then show "set (map month (g_monthlyStats (calculateGlobalStats key allMetrics))) =
      (\<Union>d \<in> set allMetrics. fst ` set (monthlyStats d))"
    by (simp only: global_months keys_aggregate)
qed

subsection \<open>Order, length and ranks of a ranking list\<close>

lemma map_index_snoc: "map_index f (xs @ [x]) = map_index f xs @ [f x (length xs)]"
  by (simp add: map_index_def)

lemma map_filter_map_index:
  assumes "\<And>d i. P (f d i) = Q d" and "\<And>d i. g (f d i) = h d"
  shows "map g (filter P (map_index f xs)) = map h (filter Q xs)"
proof (induction xs rule: rev_induct)
  case Nil
  then show ?case by (simp add: map_index_def)
next
  case (snoc x xs)
  then show ?case by (simp add: map_index_snoc assms)
qed

lemma datasetsWithStats_Nil: "datasetsWithStats now p [] mm = []"
  by (simp add: datasetsWithStats_def)

lemma datasetsWithStats_Cons:
  "datasetsWithStats now p (m # am) mm =
     (case map_of mm (datasetId m) of
        None \<Rightarrow> datasetsWithStats now p am mm
      | Some md \<Rightarrow>
          \<lparr>metrics = m, metadata = md,
           current = getStatsForPeriod m (start (periods now p)) (getCurrentMonth now),
           previous =
             (if p \<noteq> AllTime
              then getStatsForPeriod m (prevStart (periods now p)) (prevEnd (periods now p))
              else \<lparr>visits = 0, downloads = 0\<rparr>)\<rparr> # datasetsWithStats now p am mm)"
  unfolding datasetsWithStats_def
  by (cases "map_of mm (datasetId m)") simp_all

lemma datasetsWithStats_filter:
  "map metrics (datasetsWithStats now p am mm) =
     filter (\<lambda>m. map_of mm (datasetId m) \<noteq> None) am"
proof (induction am)
  case Nil
  show ?case by (simp add: datasetsWithStats_Nil)
next
  case (Cons m am)
  then show ?case
    by (cases "map_of mm (datasetId m)") (simp_all add: datasetsWithStats_Cons)
qed

lemma datasetsWithStats_value_filter:
  "map (\<lambda>d. datasetId (metrics d))
       (filter (\<lambda>d. metric_of metric (current d) = v) (datasetsWithStats now p am mm)) =
   map datasetId
       (filter (\<lambda>m. map_of mm (datasetId m) \<noteq> None \<and> window_value now p metric m = v) am)"
proof (induction am)
  case Nil
  show ?case by (simp add: datasetsWithStats_Nil)
next
  case (Cons m am)
  then show ?case
    by (cases "map_of mm (datasetId m)")
       (simp_all add: datasetsWithStats_Cons window_value_def)
qed

lemma sorted_ranked:
  "sorted (map (\<lambda>d. - metric_of metric (current d)) (ranked now p metric am mm))"
proof -
  have "sorted (take TOP_DATASETS_COUNT
      (map (\<lambda>d. - metric_of metric (current d))
         (sort_key (\<lambda>d. - metric_of metric (current d)) (datasetsWithStats now p am mm))))"
    by (rule sorted_wrt_take) (rule sorted_sort_key)
  then show ?thesis by (simp add: ranked_def take_map)
qed

lemma ranked_stable:
  "prefix (filter (\<lambda>d. metric_of metric (current d) = v) (ranked now p metric am mm))
          (filter (\<lambda>d. metric_of metric (current d) = v) (datasetsWithStats now p am mm))"
proof -
  let ?K = "\<lambda>d. - metric_of metric (current d)"
  let ?ds = "datasetsWithStats now p am mm"
  have "prefix (ranked now p metric am mm) (sort_key ?K ?ds)"
    unfolding ranked_def by (rule take_is_prefix)
  then have "prefix (filter (\<lambda>d. ?K d = - v) (ranked now p metric am mm))
                    (filter (\<lambda>d. ?K d = - v) (sort_key ?K ?ds))"
    by (rule filter_mono_prefix)
  then have "prefix (filter (\<lambda>d. ?K d = - v) (ranked now p metric am mm))
                    (filter (\<lambda>d. ?K d = - v) ?ds)"
    by (simp only: sort_key_stable)
  then show ?thesis by simp
qed

lemma value_createRanking: "value' (createRanking m md v pv r) = v"
  and id_createRanking: "id' (createRanking m md v pv r) = datasetId m"
  and rank_createRanking: "rank (createRanking m md v pv r) = r"
  and previousValue_createRanking: "previousValue (createRanking m md v pv r) = pv"
  by (simp_all add: createRanking_def)

lemma map_insort_key_cong:
  assumes "f x = g (h x)" and "\<forall>y \<in> set ys. f y = g (h y)"
  shows "map h (insort_key f x ys) = insort_key g (h x) (map h ys)"
  using assms by (induction ys) simp_all

lemma map_sort_key_cong:
  assumes "\<forall>x \<in> set xs. f x = g (h x)"
  shows "map h (sort_key f xs) = sort_key g (map h xs)"
  using assms
proof (induction xs)
  case Nil
  show ?case by simp
next
  case (Cons x xs)
  then have "map h (insort_key f x (sort_key f xs)) = insort_key g (h x) (map h (sort_key f xs))"
    by (intro map_insort_key_cong) simp_all
  with Cons show ?case by simp
qed

lemma current_window_value:
  assumes "d \<in> set (datasetsWithStats now p am mm)"
  shows "metric_of metric (current d) = window_value now p metric (metrics d)"
  using datasetsWithStats_entry(3) [OF assms] by (simp add: window_value_def)

lemma ranked_metrics:
  "map metrics (ranked now p metric am mm) =
     take 100 (sort_key (\<lambda>m. - window_value now p metric m)
                 (filter (\<lambda>m. map_of mm (datasetId m) \<noteq> None) am))"
proof -
  have "map metrics (sort_key (\<lambda>d. - metric_of metric (current d)) (datasetsWithStats now p am mm)) =
      sort_key (\<lambda>m. - window_value now p metric m) (map metrics (datasetsWithStats now p am mm))"
    by (rule map_sort_key_cong) (simp add: current_window_value)
  then have "map metrics (sort_key (\<lambda>d. - metric_of metric (current d))
        (datasetsWithStats now p am mm)) =
      sort_key (\<lambda>m. - window_value now p metric m)
        (filter (\<lambda>m. map_of mm (datasetId m) \<noteq> None) am)"
    by (simp only: datasetsWithStats_filter)
  moreover have "map metrics (ranked now p metric am mm) =
      take 100 (map metrics (sort_key (\<lambda>d. - metric_of metric (current d))
        (datasetsWithStats now p am mm)))"
    by (simp only: ranked_def TOP_DATASETS_COUNT_def take_map)
  ultimately show ?thesis
    by (simp only:)
qed

lemma map_map_index:
  assumes "\<And>d i. g (f d i) = h d"
  shows "map g (map_index f xs) = map h xs"
  by (induction xs rule: rev_induct) (simp_all add: map_index_def assms)

text \<open>
  The identifiers and values of a ranking list are those of the first 100 entities with
  metadata, once these are put in non-increasing order of value by a stable sort.
\<close>

lemma ranking_pairs:
  "map (\<lambda>r. (id' r, value' r)) (calculateTopDatasets now am mm p metric) =
     take 100 (map (\<lambda>m. (datasetId m, window_value now p metric m))
                 (sort_key (\<lambda>m. - window_value now p metric m)
                    (filter (\<lambda>m. map_of mm (datasetId m) \<noteq> None) am)))"
proof -
  let ?rk = "ranked now p metric am mm"
  have "map (\<lambda>r. (id' r, value' r)) (calculateTopDatasets now am mm p metric) =
      map (\<lambda>d. (datasetId (metrics d), metric_of metric (current d))) ?rk"
    unfolding calculateTopDatasets_ranked
    by (rule map_map_index) (simp add: id_createRanking value_createRanking)
  also have "\<dots> = map (\<lambda>d. (datasetId (metrics d), window_value now p metric (metrics d))) ?rk"
    using ranked_subset [of now p metric am mm]
    by (intro map_cong refl) (auto simp: current_window_value)
  also have "\<dots> = map (\<lambda>m. (datasetId m, window_value now p metric m)) (map metrics ?rk)"
    by simp
  finally show ?thesis
    by (simp only: ranked_metrics take_map)
qed

text \<open>An entity with metadata that the list leaves out has no larger value than an entry.\<close>

lemma left_out_not_larger:
  assumes m: "m \<in> set am" "map_of mm (datasetId m) \<noteq> None"
    and out: "datasetId m \<notin> id' ` set (calculateTopDatasets now am mm p metric)"
    and r: "r \<in> set (calculateTopDatasets now am mm p metric)"
  shows "window_value now p metric m \<le> value' r"
proof -
  let ?K = "\<lambda>m. - window_value now p metric m"
  let ?S = "sort_key ?K (filter (\<lambda>m. map_of mm (datasetId m) \<noteq> None) am)"
  let ?L = "calculateTopDatasets now am mm p metric"
  have pairs: "map (\<lambda>r. (id' r, value' r)) ?L =
      map (\<lambda>m. (datasetId m, window_value now p metric m)) (take 100 ?S)"
    by (simp only: ranking_pairs take_map)
  then have "map fst (map (\<lambda>r. (id' r, value' r)) ?L) =
      map fst (map (\<lambda>m. (datasetId m, window_value now p metric m)) (take 100 ?S))"
    by (rule arg_cong)
  then have "map id' ?L = map datasetId (take 100 ?S)"
    by (simp add: comp_def)
  then have "set (map id' ?L) = set (map datasetId (take 100 ?S))"
    by (rule arg_cong)
  with out have "m \<notin> set (take 100 ?S)"
    by auto
  moreover from m have "m \<in> set (take 100 ?S @ drop 100 ?S)"
    by simp
  ultimately have dropped: "m \<in> set (drop 100 ?S)"
    by (simp only: set_append Un_iff) blast
  from r have "(id' r, value' r) \<in> set (map (\<lambda>r. (id' r, value' r)) ?L)"
    by simp
  then obtain m' where m': "m' \<in> set (take 100 ?S)" and v: "value' r = window_value now p metric m'"
    unfolding pairs by auto
  have "sorted (map ?K (take 100 ?S @ drop 100 ?S))"
    by (simp only: append_take_drop_id sorted_sort_key)
  then have "\<forall>x \<in> set (take 100 ?S). \<forall>y \<in> set (drop 100 ?S). ?K x \<le> ?K y"
    by (simp only: map_append sorted_append set_map) blast
  with m' dropped have "?K m' \<le> ?K m"
    by blast
  with v show ?thesis
    by simp
qed

text \<open>
  C4. A ranking list of a period and a metric is in non-increasing order of the value in
  the current window; among entities of equal value the order of the input is kept (the
  identifiers of the entries of a value are the first ones, in the order of the input,
  of the entities with metadata that have this value); the list has 100 entries, or as
  many as there are entities with metadata when they are fewer; and the rank of an entry
  is its position in the list, counted from 1. The entries are the top ones: the
  identifiers and values of the list are those of the first 100 of the entities with
  metadata once these are sorted by non-increasing value, the sort being stable; and an
  entity with metadata whose identifier is not in the list has a value that is at most
  the value of every entry.
\<close>

theorem ranking_sorted_stable_truncated_ranked:
  "(\<forall>i j. i < j \<and> j < length (calculateTopDatasets now allMetrics metadataMap p metric) \<longrightarrow>
      value' (calculateTopDatasets now allMetrics metadataMap p metric ! j)
        \<le> value' (calculateTopDatasets now allMetrics metadataMap p metric ! i))
   \<and> (\<forall>v. prefix
         (map id' (filter (\<lambda>r. value' r = v)
            (calculateTopDatasets now allMetrics metadataMap p metric)))
         (map datasetId
            (filter (\<lambda>m. map_of metadataMap (datasetId m) \<noteq> None
                        \<and> window_value now p metric m = v) allMetrics)))
   \<and> length (calculateTopDatasets now allMetrics metadataMap p metric) =
       min 100 (length (filter (\<lambda>m. map_of metadataMap (datasetId m) \<noteq> None) allMetrics))
   \<and> length (calculateTopDatasets now allMetrics metadataMap p metric) \<le> 100
   \<and> (\<forall>i < length (calculateTopDatasets now allMetrics metadataMap p metric).
         rank (calculateTopDatasets now allMetrics metadataMap p metric ! i) = i + 1)
   \<and> map (\<lambda>r. (id' r, value' r)) (calculateTopDatasets now allMetrics metadataMap p metric) =
       take 100
         (map (\<lambda>m. (datasetId m, window_value now p metric m))
            (sort_key (\<lambda>m. - window_value now p metric m)
               (filter (\<lambda>m. map_of metadataMap (datasetId m) \<noteq> None) allMetrics)))
   \<and> (\<forall>m \<in> set allMetrics.
         map_of metadataMap (datasetId m) \<noteq> None
         \<and> datasetId m \<notin> id' ` set (calculateTopDatasets now allMetrics metadataMap p metric) \<longrightarrow>
         (\<forall>r \<in> set (calculateTopDatasets now allMetrics metadataMap p metric).
            window_value now p metric m \<le> value' r))"
proof -
  let ?rk = "ranked now p metric allMetrics metadataMap"
  let ?F = "\<lambda>d i. createRanking (metrics d) (metadata d)
                     (metric_of metric (current d)) (metric_of metric (previous d)) (i + 1)"
  have rs: "calculateTopDatasets now allMetrics metadataMap p metric = map_index ?F ?rk"
    by (rule calculateTopDatasets_ranked)
  have len: "length (map_index ?F ?rk) = length ?rk"
    by (rule length_map_index)
  have val: "value' (map_index ?F ?rk ! i) = metric_of metric (current (?rk ! i))"
    if "i < length ?rk" for i
    using that by (simp add: nth_map_index value_createRanking)
  have order: "value' (map_index ?F ?rk ! j) \<le> value' (map_index ?F ?rk ! i)"
    if "i < j" and "j < length ?rk" for i j
  proof -
    from that have "map (\<lambda>d. - metric_of metric (current d)) ?rk ! i
        \<le> map (\<lambda>d. - metric_of metric (current d)) ?rk ! j"
      using sorted_ranked [of metric now p allMetrics metadataMap]
      by (intro sorted_nth_mono) simp_all
    then have "metric_of metric (current (?rk ! j)) \<le> metric_of metric (current (?rk ! i))"
      using that by simp
    moreover from that have "i < length ?rk" by simp
    then have "value' (map_index ?F ?rk ! i) = metric_of metric (current (?rk ! i))"
      by (rule val)
    moreover from that have "value' (map_index ?F ?rk ! j) = metric_of metric (current (?rk ! j))"
      by (intro val)
    ultimately show ?thesis by (simp only:)
  qed
  have stable: "prefix (map id' (filter (\<lambda>r. value' r = v) (map_index ?F ?rk)))
      (map datasetId (filter (\<lambda>m. map_of metadataMap (datasetId m) \<noteq> None
                                  \<and> window_value now p metric m = v) allMetrics))" for v
  proof -
    have "map id' (filter (\<lambda>r. value' r = v) (map_index ?F ?rk)) =
        map (\<lambda>d. datasetId (metrics d)) (filter (\<lambda>d. metric_of metric (current d) = v) ?rk)"
      by (rule map_filter_map_index [where f = "?F" and P = "\<lambda>r. value' r = v" and g = id'
            and Q = "\<lambda>d. metric_of metric (current d) = v"
            and h = "\<lambda>d. datasetId (metrics d)"])
         (simp_all add: value_createRanking id_createRanking)
    moreover have "prefix
        (map (\<lambda>d. datasetId (metrics d)) (filter (\<lambda>d. metric_of metric (current d) = v) ?rk))
        (map (\<lambda>d. datasetId (metrics d))
           (filter (\<lambda>d. metric_of metric (current d) = v)
              (datasetsWithStats now p allMetrics metadataMap)))"
      by (rule map_mono_prefix) (rule ranked_stable)
    ultimately show ?thesis
      by (simp only: datasetsWithStats_value_filter)
  qed
  have "length (map metrics (datasetsWithStats now p allMetrics metadataMap)) =
      length (filter (\<lambda>m. map_of metadataMap (datasetId m) \<noteq> None) allMetrics)"
    by (simp only: datasetsWithStats_filter)
  then have "length (datasetsWithStats now p allMetrics metadataMap) =
      length (filter (\<lambda>m. map_of metadataMap (datasetId m) \<noteq> None) allMetrics)"
    by (simp only: length_map)
  then have count: "length ?rk =
      min 100 (length (filter (\<lambda>m. map_of metadataMap (datasetId m) \<noteq> None) allMetrics))"
    by (simp add: ranked_def TOP_DATASETS_COUNT_def min.commute)
  have ranks: "rank (map_index ?F ?rk ! i) = i + 1" if "i < length ?rk" for i
    using that by (simp add: nth_map_index rank_createRanking)
  from count have bound: "length ?rk \<le> 100"
    by simp
  have pairs: "map (\<lambda>r. (id' r, value' r)) (map_index ?F ?rk) =
      take 100
        (map (\<lambda>m. (datasetId m, window_value now p metric m))
           (sort_key (\<lambda>m. - window_value now p metric m)
              (filter (\<lambda>m. map_of metadataMap (datasetId m) \<noteq> None) allMetrics)))"
    using ranking_pairs [of now allMetrics metadataMap p metric] by (simp only: rs)
  have left_out: "window_value now p metric m \<le> value' r"
    if "m \<in> set allMetrics" and "map_of metadataMap (datasetId m) \<noteq> None"
      and "datasetId m \<notin> id' ` set (map_index ?F ?rk)" and "r \<in> set (map_index ?F ?rk)" for m r
  proof -
    have "datasetId m \<notin> id' ` set (calculateTopDatasets now allMetrics metadataMap p metric)"
      unfolding rs by (rule that(3))
    moreover have "r \<in> set (calculateTopDatasets now allMetrics metadataMap p metric)"
      unfolding rs by (rule that(4))
    ultimately show ?thesis
      using that(1,2) by (intro left_out_not_larger)
  qed
  show ?thesis
    unfolding rs len
  proof (intro conjI allI impI ballI)
    fix i j
    assume "i < j \<and> j < length ?rk"
    then show "value' (map_index ?F ?rk ! j) \<le> value' (map_index ?F ?rk ! i)"
      using order by blast
  next
    fix v
    show "prefix (map id' (filter (\<lambda>r. value' r = v) (map_index ?F ?rk)))
      (map datasetId (filter (\<lambda>m. map_of metadataMap (datasetId m) \<noteq> None
                                  \<and> window_value now p metric m = v) allMetrics))"
      by (rule stable)
  next
    show "length ?rk =
      min 100 (length (filter (\<lambda>m. map_of metadataMap (datasetId m) \<noteq> None) allMetrics))"
      by (rule count)
  next
    show "length ?rk \<le> 100"
      by (rule bound)
  next
    fix i
    assume "i < length ?rk"
    then show "rank (map_index ?F ?rk ! i) = i + 1"
      by (rule ranks)
  next
    show "map (\<lambda>r. (id' r, value' r)) (map_index ?F ?rk) =
      take 100
        (map (\<lambda>m. (datasetId m, window_value now p metric m))
           (sort_key (\<lambda>m. - window_value now p metric m)
              (filter (\<lambda>m. map_of metadataMap (datasetId m) \<noteq> None) allMetrics)))"
      by (rule pairs)
  next
    fix m r
    assume "m \<in> set allMetrics"
      and "map_of metadataMap (datasetId m) \<noteq> None
        \<and> datasetId m \<notin> id' ` set (map_index ?F ?rk)"
      and "r \<in> set (map_index ?F ?rk)"
    then show "window_value now p metric m \<le> value' r"
      using left_out by blast
  qed
qed

subsection \<open>Trend\<close>

text \<open>
  C5. For every ranking entry the trend is ((value - previousValue) / previousValue) * 100
  when previousValue is positive and 0 otherwise, so 0 when previousValue is 0 and 50 when
  previousValue is 200 and value is 300; in the lists of the period allTime the previous
  value and the trend of every entry are 0. The quotient is the exact one: the rounding
  of the floating point division is not modelled.
\<close>

theorem ranking_trend:
  "(\<forall>r \<in> set (calculateTopDatasets now allMetrics metadataMap p metric).
       trend r = (if previousValue r > 0
                  then ((real_of_int (value' r) - real_of_int (previousValue r))
                          / real_of_int (previousValue r)) * 100
                  else 0)
     \<and> (previousValue r = 0 \<longrightarrow> trend r = 0)
     \<and> (previousValue r = 200 \<and> value' r = 300 \<longrightarrow> trend r = 50))
   \<and> (\<forall>r \<in> set (calculateTopDatasets now allMetrics metadataMap AllTime metric).
         previousValue r = 0 \<and> trend r = 0)"
proof (intro conjI ballI)
  fix r
  assume "r \<in> set (calculateTopDatasets now allMetrics metadataMap p metric)"
  then obtain d k where "d \<in> set (datasetsWithStats now p allMetrics metadataMap)"
    and r: "r = createRanking (metrics d) (metadata d)
      (metric_of metric (current d)) (metric_of metric (previous d)) k"
    by (blast dest: ranking_entry)
  show "trend r = (if previousValue r > 0
                  then ((real_of_int (value' r) - real_of_int (previousValue r))
                          / real_of_int (previousValue r)) * 100
                  else 0)"
    by (simp add: r createRanking_def)
  then show "previousValue r = 0 \<longrightarrow> trend r = 0"
    by simp
  show "previousValue r = 200 \<and> value' r = 300 \<longrightarrow> trend r = 50"
    by (simp add: r createRanking_def)
next
  fix r
  assume "r \<in> set (calculateTopDatasets now allMetrics metadataMap AllTime metric)"
  then obtain d k where d: "d \<in> set (datasetsWithStats now AllTime allMetrics metadataMap)"
    and r: "r = createRanking (metrics d) (metadata d)
      (metric_of metric (current d)) (metric_of metric (previous d)) k"
    by (blast dest: ranking_entry)
  from datasetsWithStats_entry(4) [OF d] have "metric_of metric (previous d) = 0"
    by (cases metric) (simp_all add: metric_of_def)
  then show "previousValue r = 0" and "trend r = 0"
    by (simp_all add: r createRanking_def)
qed

subsection \<open>Organization of a dataset without one\<close>

lemma organization_null:
  "ds_organization md = None \<Longrightarrow> organization_name md = ''Inconnu'' \<and> organization_id md = []"
  by (simp add: organization_name_def organization_id_def str_or_def)

text \<open>
  C10. When the metadata of an entity have a null organization, every record made from
  them carries the organization name Inconnu and the empty string as organizationId: the
  entries of the entity in the ranking lists, its entry in the directory, and its
  record of detailed statistics. The metadata map is a \<^verbatim>\<open>Map\<close>: its keys are distinct.
\<close>

theorem null_organization_is_Inconnu:
  assumes "distinct (map fst metadataMap)"
  shows "(\<forall>r \<in> set (calculateTopDatasets now allMetrics metadataMap p metric).
            \<forall>md. map_of metadataMap (id' r) = Some md \<and> ds_organization md = None \<longrightarrow>
              organization r = ''Inconnu'' \<and> organizationId r = [])
       \<and> (\<forall>s \<in> set (createDatasetsIndex key_fr metadataMap).
            \<forall>md. map_of metadataMap (id' s) = Some md \<and> ds_organization md = None \<longrightarrow>
              organization s = ''Inconnu'' \<and> organizationId s = [])
       \<and> (\<forall>md m. ds_organization md = None \<longrightarrow>
            organization (createDatasetStats key m md) = ''Inconnu''
            \<and> organizationId (createDatasetStats key m md) = [])"
proof (intro conjI ballI allI impI)
  fix r md
  assume "r \<in> set (calculateTopDatasets now allMetrics metadataMap p metric)"
    and md: "map_of metadataMap (id' r) = Some md \<and> ds_organization md = None"
  then obtain d k where d: "d \<in> set (datasetsWithStats now p allMetrics metadataMap)"
    and r: "r = createRanking (metrics d) (metadata d)
      (metric_of metric (current d)) (metric_of metric (previous d)) k"
    by (blast dest: ranking_entry)
  from datasetsWithStats_entry(2) [OF d] md r have "metadata d = md"
    by (simp add: createRanking_def)
  with md r organization_null [of md]
  show "organization r = ''Inconnu''" and "organizationId r = []"
    by (simp_all add: createRanking_def)
next
  fix s md
  assume "s \<in> set (createDatasetsIndex key_fr metadataMap)"
    and md: "map_of metadataMap (id' s) = Some md \<and> ds_organization md = None"
  then obtain i md' where e: "(i, md') \<in> set metadataMap" and s: "s = to_summary (i, md')"
    by (auto simp: createDatasetsIndex_def set_array_sort)
  from e assms have "map_of metadataMap i = Some md'" by simp
  with md s have "md' = md" by (simp add: to_summary_def)
  with md s organization_null [of md]
  show "organization s = ''Inconnu''" and "organizationId s = []"
    by (simp_all add: to_summary_def)
next
  fix md :: DatagouvDataset and m
  assume "ds_organization md = None"
  with organization_null [of md]
  show "organization (createDatasetStats key m md) = ''Inconnu''"
    and "organizationId (createDatasetStats key m md) = []"
    by (simp_all add: createDatasetStats_def Let_def)
qed

subsection \<open>The example run, evaluated\<close>

lemma pad2: "pad 2 n = [digit_char (n div 10 mod 10), digit_char (n mod 10)]"
proof -
  have e: "(2::nat) = Suc (Suc 0)" by simp
  show ?thesis unfolding e by simp
qed

lemma pad4:
  "pad 4 n = [digit_char (n div 10 div 10 div 10 mod 10), digit_char (n div 10 div 10 mod 10),
              digit_char (n div 10 mod 10), digit_char (n mod 10)]"
proof -
  have e: "(4::nat) = Suc (Suc (Suc (Suc 0)))" by simp
  show ?thesis unfolding e by simp
qed

lemma digit_chars:
  "digit_char 0 = CHR ''0''" "digit_char 1 = CHR ''1''" "digit_char 2 = CHR ''2''"
  "digit_char 3 = CHR ''3''" "digit_char 4 = CHR ''4''" "digit_char 5 = CHR ''5''"
  "digit_char 6 = CHR ''6''" "digit_char 7 = CHR ''7''" "digit_char 8 = CHR ''8''"
  "digit_char 9 = CHR ''9''"
  "digit_char (Suc 0) = CHR ''1''" "digit_char (Suc (Suc 0)) = CHR ''2''"
  by (simp_all add: digit_char_def char_of_eq_iff)

lemmas date_eval = getMonthsAgo_def getCurrentMonth_def setMonth_def MakeDay_def
  days_in_month_def leap_year_def iso_month_def pad2 pad4 digit_chars Let_def

lemma ex_months:
  "getCurrentMonth ex_now = ''2024-03''"
  "getMonthsAgo ex_now 0 = ''2024-03''"
  "getMonthsAgo ex_now 1 = ''2024-02''"
  "getMonthsAgo ex_now (Suc 0) = ''2024-02''"
  "getMonthsAgo ex_now 2 = ''2024-01''"
  "getMonthsAgo ex_now 12 = ''2023-03''"
  "getMonthsAgo ex_now 13 = ''2023-02''"
  "getMonthsAgo ex_now 24 = ''2022-03''"
  by (simp_all add: ex_now_def date_eval)

lemma ex_fetchAllMetrics: "fetchAllMetrics ex_api [''a'', ''b'', ''c''] = ex_metrics"
  by (simp add: fetchAllMetrics_def fetchDatasetMetrics_def ex_api_def ex_entry_def
        set_entry_def num_or_zero_def ex_metrics_def)

lemma ex_fetchAllMetadata: "fetchAllMetadata ex_resolver ex_metrics = ex_metadata"
  by (simp add: fetchAllMetadata_def ex_resolver_def ex_metrics_def ex_metadata_def)

lemma ex_week:
  "datasetsWithStats ex_now Week ex_metrics ex_metadata =
     [\<lparr>metrics = ex_metrics ! 0, metadata = snd (ex_metadata ! 0),
       current = \<lparr>visits = 300, downloads = 3\<rparr>, previous = \<lparr>visits = 200, downloads = 2\<rparr>\<rparr>,
      \<lparr>metrics = ex_metrics ! 1, metadata = snd (ex_metadata ! 1),
       current = \<lparr>visits = 300, downloads = 0\<rparr>, previous = \<lparr>visits = 0, downloads = 0\<rparr>\<rparr>]"
  by (simp add: datasetsWithStats_def periods_def ex_months getStatsForPeriod_def
        ex_metrics_def ex_metadata_def)

lemma ex_week_visits:
  "calculateTopDatasets ex_now ex_metrics ex_metadata Week Visits =
     [\<lparr>id' = ''a'', title = ''Agriculture'', slug = ''agriculture'', organization = ''Inconnu'',
       organizationId = [], value' = 300, previousValue = 200, trend = 50, rank = 1\<rparr>,
      \<lparr>id' = ''b'', title = ''Budget'', slug = ''budget'', organization = ''Org'',
       organizationId = ''o1'', value' = 300, previousValue = 0, trend = 0, rank = 2\<rparr>]"
  unfolding calculateTopDatasets_def Let_def ex_week
  by (simp add: array_sort_def map_index_def
        TOP_DATASETS_COUNT_def createRanking_def organization_name_def organization_id_def
        str_or_def upt_rec ex_metrics_def ex_metadata_def)

lemma ex_alltime:
  "datasetsWithStats ex_now AllTime ex_metrics ex_metadata =
     [\<lparr>metrics = ex_metrics ! 0, metadata = snd (ex_metadata ! 0),
       current = \<lparr>visits = 510, downloads = 6\<rparr>, previous = \<lparr>visits = 0, downloads = 0\<rparr>\<rparr>,
      \<lparr>metrics = ex_metrics ! 1, metadata = snd (ex_metadata ! 1),
       current = \<lparr>visits = 300, downloads = 0\<rparr>, previous = \<lparr>visits = 0, downloads = 0\<rparr>\<rparr>]"
  by (simp add: datasetsWithStats_def periods_def ex_months getStatsForPeriod_def
        ex_metrics_def ex_metadata_def)

lemma ex_alltime_visits:
  "calculateTopDatasets ex_now ex_metrics ex_metadata AllTime Visits =
     [\<lparr>id' = ''a'', title = ''Agriculture'', slug = ''agriculture'', organization = ''Inconnu'',
       organizationId = [], value' = 510, previousValue = 0, trend = 0, rank = 1\<rparr>,
      \<lparr>id' = ''b'', title = ''Budget'', slug = ''budget'', organization = ''Org'',
       organizationId = ''o1'', value' = 300, previousValue = 0, trend = 0, rank = 2\<rparr>]"
  unfolding calculateTopDatasets_def Let_def ex_alltime
  by (simp add: array_sort_def map_index_def
        TOP_DATASETS_COUNT_def createRanking_def organization_name_def organization_id_def
        str_or_def upt_rec ex_metrics_def ex_metadata_def)

lemma ex_index:
  "createDatasetsIndex ex_key ex_metadata =
     [\<lparr>id' = ''a'', title = ''Agriculture'', slug = ''agriculture'', organization = ''Inconnu'',
       organizationId = []\<rparr>,
      \<lparr>id' = ''b'', title = ''Budget'', slug = ''budget'', organization = ''Org'',
       organizationId = ''o1''\<rparr>]"
  by (simp add: createDatasetsIndex_def array_sort_def localeCompare_def ex_key_def
        to_summary_def organization_name_def organization_id_def str_or_def ex_metadata_def)

lemma ex_aggregate:
  "aggregate ex_metrics =
     [(''2024-01'', \<lparr>visits = 10, downloads = 1\<rparr>),
      (''2024-02'', \<lparr>visits = 200, downloads = 2\<rparr>),
      (''2024-03'', \<lparr>visits = 1100, downloads = 12\<rparr>)]"
  by (simp add: aggregate_def add_month_def ex_metrics_def)

lemma ex_global:
  "calculateGlobalStats ex_key ex_metrics =
     \<lparr>g_totalVisits = 1310, g_totalDownloads = 15, totalDatasets = 3, startDate = ''2024-01'',
      g_monthlyStats =
        [\<lparr>visits = 10, downloads = 1, month = ''2024-01''\<rparr>,
         \<lparr>visits = 200, downloads = 2, month = ''2024-02''\<rparr>,
         \<lparr>visits = 1100, downloads = 12, month = ''2024-03''\<rparr>]\<rparr>"
  unfolding calculateGlobalStats_def Let_def ex_aggregate
  by (simp add: array_sort_def localeCompare_def ex_key_def to_MonthlyStats_def str_or_def
        ex_metrics_def)

subsection \<open>Entities without metadata\<close>

lemma map_of_foldl_metadata:
  "map_of (foldl (\<lambda>metadataMap m.
                    case resolver (datasetId m) of
                      None \<Rightarrow> metadataMap
                    | Some md \<Rightarrow> AList.update (datasetId m) md metadataMap) acc am) i =
     (if i \<in> datasetId ` set am \<and> resolver i \<noteq> None then resolver i else map_of acc i)"
proof (induction am arbitrary: acc)
  case Nil
  show ?case by simp
next
  case (Cons m am)
  show ?case
    by (cases "resolver (datasetId m)") (auto simp: Cons.IH update_conv')
qed

lemma map_of_fetchAllMetadata:
  "map_of (fetchAllMetadata resolver am) i =
     (if i \<in> datasetId ` set am then resolver i else None)"
  unfolding fetchAllMetadata_def by (simp add: map_of_foldl_metadata)

lemma ranking_ids_have_metadata:
  assumes "r \<in> set (calculateTopDatasets now am mm p metric)"
  shows "map_of mm (id' r) \<noteq> None"
proof -
  from assms obtain d k where d: "d \<in> set (datasetsWithStats now p am mm)"
    and r: "r = createRanking (metrics d) (metadata d)
      (metric_of metric (current d)) (metric_of metric (previous d)) k"
    by (blast dest: ranking_entry)
  from datasetsWithStats_entry(2) [OF d] r show ?thesis
    by (simp add: id_createRanking)
qed

lemma index_ids_have_metadata:
  assumes "s \<in> set (createDatasetsIndex key_fr mm)"
  shows "map_of mm (id' s) \<noteq> None"
proof -
  from assms obtain i md where e: "(i, md) \<in> set mm" and s: "s = to_summary (i, md)"
    by (auto simp: createDatasetsIndex_def set_array_sort)
  from e have "i \<in> fst ` set mm" by force
  then have "map_of mm i \<noteq> None" by (simp add: map_of_eq_None_iff)
  with s show ?thesis by (simp add: to_summary_def)
qed

lemma distinct_foldl_set_entry:
  "distinct (map fst acc) \<Longrightarrow> distinct (map fst (foldl set_entry acc es))"
  by (induction es arbitrary: acc) (simp_all add: set_entry_def distinct_update)

lemma distinct_fetch_pages:
  "fetch_pages acc rs = Inr ms \<Longrightarrow> distinct (map fst acc) \<Longrightarrow> distinct (map fst ms)"
proof (induction rs arbitrary: acc)
  case Nil
  then show ?case by simp
next
  case (Cons r rs)
  then show ?case
    by (cases "links_next r = None") (auto simp: Let_def distinct_foldl_set_entry)
qed

lemma distinct_fetchDatasetMetrics:
  "fetchDatasetMetrics i rs = Inr dm \<Longrightarrow> distinct (map fst (monthlyStats dm))"
  by (auto simp: fetchDatasetMetrics_def split: sum.splits dest: distinct_fetch_pages)

lemma in_fetchAllMetrics:
  "dm \<in> set (fetchAllMetrics metricApi ids) \<longleftrightarrow>
     (\<exists>i \<in> set ids. fetchDatasetMetrics i (metricApi i) = Inr dm)"
  by (induction ids) (auto simp: fetchAllMetrics_def split: sum.splits)

lemma distinct_fetchAllMetrics:
  "\<forall>d \<in> set (fetchAllMetrics metricApi ids). distinct (map fst (monthlyStats d))"
  by (auto simp: in_fetchAllMetrics dest: distinct_fetchDatasetMetrics)

lemma global_month_set:
  "month ` set (g_monthlyStats (calculateGlobalStats key am)) =
     (\<Union>d \<in> set am. fst ` set (monthlyStats d))"
proof -
  have "set (map month (g_monthlyStats (calculateGlobalStats key am))) =
      set (map fst (sort_key (\<lambda>a. key (fst a)) (aggregate am)))"
    by (simp only: global_months)
  then show ?thesis
    by (simp add: keys_aggregate)
qed

text \<open>
  Each month of a series that was read is a month of the global series, and holds there
  the value of the series plus the values of the other series.
\<close>

lemma series_in_global:
  assumes dist: "\<forall>d \<in> set am. distinct (map fst (monthlyStats d))"
    and dm: "dm \<in> set am"
    and mc: "(mo, c) \<in> set (monthlyStats dm)"
  shows "\<exists>e \<in> set (g_monthlyStats (calculateGlobalStats key am)).
           month e = mo
         \<and> visits e = visits c + (\<Sum>d\<leftarrow>remove1 dm am. visits_at (monthlyStats d) mo)
         \<and> downloads e = downloads c + (\<Sum>d\<leftarrow>remove1 dm am. downloads_at (monthlyStats d) mo)"
proof -
  from dm mc have "mo \<in> (\<Union>d \<in> set am. fst ` set (monthlyStats d))"
    by force
  then have "mo \<in> month ` set (g_monthlyStats (calculateGlobalStats key am))"
    by (simp only: global_month_set)
  then obtain e where e: "e \<in> set (g_monthlyStats (calculateGlobalStats key am))"
    and mo: "month e = mo"
    by auto
  from dist dm have "distinct (map fst (monthlyStats dm))"
    by blast
  with mc have "map_of (monthlyStats dm) mo = Some c"
    by simp
  then have at: "visits_at (monthlyStats dm) mo = visits c"
    "downloads_at (monthlyStats dm) mo = downloads c"
    by (simp_all add: visits_at_def downloads_at_def)
  have "visits e = (\<Sum>d\<leftarrow>am. visits_at (monthlyStats d) mo)"
    using global_entry_sum(1) [OF dist e] by (simp only: mo)
  also have "\<dots> = visits_at (monthlyStats dm) mo
      + (\<Sum>d\<leftarrow>remove1 dm am. visits_at (monthlyStats d) mo)"
    using dm by (rule sum_list_map_remove1)
  finally have v: "visits e = visits c + (\<Sum>d\<leftarrow>remove1 dm am. visits_at (monthlyStats d) mo)"
    by (simp only: at)
  have "downloads e = (\<Sum>d\<leftarrow>am. downloads_at (monthlyStats d) mo)"
    using global_entry_sum(2) [OF dist e] by (simp only: mo)
  also have "\<dots> = downloads_at (monthlyStats dm) mo
      + (\<Sum>d\<leftarrow>remove1 dm am. downloads_at (monthlyStats d) mo)"
    using dm by (rule sum_list_map_remove1)
  finally have "downloads e =
      downloads c + (\<Sum>d\<leftarrow>remove1 dm am. downloads_at (monthlyStats d) mo)"
    by (simp only: at)
  with e mo v show ?thesis
    by blast
qed

text \<open>
  C7. When the metadata of an entity cannot be fetched, a run of the synchronisation
  lists the entity in no ranking list of any period and metric and in no entry of the
  directory, while the global statistics are those of all the series read, the series of
  this entity among them: the totals are the sums of the totals of all the series, and at
  each month of the global series the visits and the downloads are the sums over all the
  series. The series of the entity is counted: the months of the global series are the
  months of the series read; the totals are the totals of the entity plus those of the
  other series; and each month of the series of the entity is a month of the global
  series, which holds there the visits and the downloads of the entity plus those of the
  other series.
\<close>

theorem unresolved_metadata_kept_in_global_only:
  assumes "resolver i = None"
  shows "(\<forall>p metric.
            i \<notin> id' ` set (out_topDatasets (main key key_fr now metricApi resolver ids) p metric))
       \<and> i \<notin> id' ` set (out_datasetsIndex (main key key_fr now metricApi resolver ids))
       \<and> (\<forall>dm. i \<in> set ids \<and> fetchDatasetMetrics i (metricApi i) = Inr dm \<longrightarrow>
             dm \<in> set (fetchAllMetrics metricApi ids))
       \<and> g_totalVisits (out_globalStats (main key key_fr now metricApi resolver ids)) =
           (\<Sum>d\<leftarrow>fetchAllMetrics metricApi ids. totalVisits d)
       \<and> g_totalDownloads (out_globalStats (main key key_fr now metricApi resolver ids)) =
           (\<Sum>d\<leftarrow>fetchAllMetrics metricApi ids. totalDownloads d)
       \<and> (\<forall>e \<in> set (g_monthlyStats (out_globalStats (main key key_fr now metricApi resolver ids))).
            visits e = (\<Sum>d\<leftarrow>fetchAllMetrics metricApi ids. visits_at (monthlyStats d) (month e))
          \<and> downloads e =
              (\<Sum>d\<leftarrow>fetchAllMetrics metricApi ids. downloads_at (monthlyStats d) (month e)))
       \<and> month ` set (g_monthlyStats (out_globalStats (main key key_fr now metricApi resolver ids))) =
           (\<Union>d \<in> set (fetchAllMetrics metricApi ids). fst ` set (monthlyStats d))
       \<and> (\<forall>dm. i \<in> set ids \<and> fetchDatasetMetrics i (metricApi i) = Inr dm \<longrightarrow>
             g_totalVisits (out_globalStats (main key key_fr now metricApi resolver ids)) =
               totalVisits dm + (\<Sum>d\<leftarrow>remove1 dm (fetchAllMetrics metricApi ids). totalVisits d)
           \<and> g_totalDownloads (out_globalStats (main key key_fr now metricApi resolver ids)) =
               totalDownloads dm
                 + (\<Sum>d\<leftarrow>remove1 dm (fetchAllMetrics metricApi ids). totalDownloads d)
           \<and> (\<forall>mc \<in> set (monthlyStats dm).
                 \<exists>e \<in> set (g_monthlyStats
                            (out_globalStats (main key key_fr now metricApi resolver ids))).
                   month e = fst mc
                 \<and> visits e = visits (snd mc)
                     + (\<Sum>d\<leftarrow>remove1 dm (fetchAllMetrics metricApi ids).
                          visits_at (monthlyStats d) (fst mc))
                 \<and> downloads e = downloads (snd mc)
                     + (\<Sum>d\<leftarrow>remove1 dm (fetchAllMetrics metricApi ids).
                          downloads_at (monthlyStats d) (fst mc))))"
proof -
  let ?am = "fetchAllMetrics metricApi ids"
  let ?mm = "fetchAllMetadata resolver ?am"
  have none: "map_of ?mm i = None"
    using assms by (simp add: map_of_fetchAllMetadata)
  have top: "out_topDatasets (main key key_fr now metricApi resolver ids) =
      calculateTopDatasets now ?am ?mm"
    and index: "out_datasetsIndex (main key key_fr now metricApi resolver ids) =
      createDatasetsIndex key_fr ?mm"
    and global: "out_globalStats (main key key_fr now metricApi resolver ids) =
      calculateGlobalStats key ?am"
    by (simp_all add: main_def Let_def)
  have c1: "\<forall>p metric. i \<notin> id' ` set (calculateTopDatasets now ?am ?mm p metric)"
    using none ranking_ids_have_metadata [of _ now ?am ?mm] by blast
  have c2: "i \<notin> id' ` set (createDatasetsIndex key_fr ?mm)"
    using none index_ids_have_metadata [of _ key_fr ?mm] by blast
  have read: "dm \<in> set ?am"
    if "i \<in> set ids \<and> fetchDatasetMetrics i (metricApi i) = Inr dm" for dm
    using that by (auto simp: in_fetchAllMetrics)
  then have c3: "\<forall>dm. i \<in> set ids \<and> fetchDatasetMetrics i (metricApi i) = Inr dm \<longrightarrow>
      dm \<in> set ?am"
    by blast
  have c4: "g_totalVisits (calculateGlobalStats key ?am) = (\<Sum>d\<leftarrow>?am. totalVisits d)"
    and c5: "g_totalDownloads (calculateGlobalStats key ?am) = (\<Sum>d\<leftarrow>?am. totalDownloads d)"
    by (simp_all add: calculateGlobalStats_def Let_def)
  have "visits e = (\<Sum>d\<leftarrow>?am. visits_at (monthlyStats d) (month e))
      \<and> downloads e = (\<Sum>d\<leftarrow>?am. downloads_at (monthlyStats d) (month e))"
    if "e \<in> set (g_monthlyStats (calculateGlobalStats key ?am))" for e
    using global_entry_sum [OF distinct_fetchAllMetrics that] by simp
  then have c6: "\<forall>e \<in> set (g_monthlyStats (calculateGlobalStats key ?am)).
      visits e = (\<Sum>d\<leftarrow>?am. visits_at (monthlyStats d) (month e))
      \<and> downloads e = (\<Sum>d\<leftarrow>?am. downloads_at (monthlyStats d) (month e))"
    by blast
  have c7: "month ` set (g_monthlyStats (calculateGlobalStats key ?am)) =
      (\<Union>d \<in> set ?am. fst ` set (monthlyStats d))"
    by (rule global_month_set)
  have c8: "\<forall>dm. i \<in> set ids \<and> fetchDatasetMetrics i (metricApi i) = Inr dm \<longrightarrow>
      g_totalVisits (calculateGlobalStats key ?am) =
        totalVisits dm + (\<Sum>d\<leftarrow>remove1 dm ?am. totalVisits d)
      \<and> g_totalDownloads (calculateGlobalStats key ?am) =
        totalDownloads dm + (\<Sum>d\<leftarrow>remove1 dm ?am. totalDownloads d)
      \<and> (\<forall>mc \<in> set (monthlyStats dm).
            \<exists>e \<in> set (g_monthlyStats (calculateGlobalStats key ?am)).
              month e = fst mc
            \<and> visits e = visits (snd mc)
                + (\<Sum>d\<leftarrow>remove1 dm ?am. visits_at (monthlyStats d) (fst mc))
            \<and> downloads e = downloads (snd mc)
                + (\<Sum>d\<leftarrow>remove1 dm ?am. downloads_at (monthlyStats d) (fst mc)))"
  proof (intro allI impI conjI ballI)
    fix dm
    assume "i \<in> set ids \<and> fetchDatasetMetrics i (metricApi i) = Inr dm"
    then have dm: "dm \<in> set ?am"
      by (rule read)
    show "g_totalVisits (calculateGlobalStats key ?am) =
        totalVisits dm + (\<Sum>d\<leftarrow>remove1 dm ?am. totalVisits d)"
      unfolding c4 using dm by (rule sum_list_map_remove1)
    show "g_totalDownloads (calculateGlobalStats key ?am) =
        totalDownloads dm + (\<Sum>d\<leftarrow>remove1 dm ?am. totalDownloads d)"
      unfolding c5 using dm by (rule sum_list_map_remove1)
    fix mc
    assume "mc \<in> set (monthlyStats dm)"
    then have "(fst mc, snd mc) \<in> set (monthlyStats dm)"
      by simp
    from series_in_global [OF distinct_fetchAllMetrics dm this]
    show "\<exists>e \<in> set (g_monthlyStats (calculateGlobalStats key ?am)).
              month e = fst mc
            \<and> visits e = visits (snd mc)
                + (\<Sum>d\<leftarrow>remove1 dm ?am. visits_at (monthlyStats d) (fst mc))
            \<and> downloads e = downloads (snd mc)
                + (\<Sum>d\<leftarrow>remove1 dm ?am. downloads_at (monthlyStats d) (fst mc))" .
  qed
  show ?thesis
    unfolding top index global
    by (intro conjI) (fact c1 c2 c3 c4 c5 c6 c7 c8)+
qed

subsection \<open>The properties on the example run\<close>


theorem global_series_witness:
  "\<lparr>visits = 1100, downloads = 12, month = ''2024-03''\<rparr>
      \<in> set (g_monthlyStats (calculateGlobalStats ex_key ex_metrics))
   \<and> (\<Sum>d\<leftarrow>ex_metrics. visits_at (monthlyStats d) ''2024-03'') = 1100
   \<and> (\<Sum>d\<leftarrow>ex_metrics. downloads_at (monthlyStats d) ''2024-03'') = 12"
proof -
  have d: "\<forall>d \<in> set ex_metrics. distinct (map fst (monthlyStats d))"
    by (simp add: ex_metrics_def)
  have e: "\<lparr>visits = 1100, downloads = 12, month = ''2024-03''\<rparr>
      \<in> set (g_monthlyStats (calculateGlobalStats ex_key ex_metrics))"
    by (simp add: ex_global)
  from global_series_is_sum_of_entity_series [OF d, of ex_key] e
  have "visits \<lparr>visits = 1100, downloads = 12, month = ''2024-03''\<rparr> =
        (\<Sum>d\<leftarrow>ex_metrics. visits_at (monthlyStats d)
            (month \<lparr>visits = 1100, downloads = 12, month = ''2024-03''\<rparr>))
      \<and> downloads \<lparr>visits = 1100, downloads = 12, month = ''2024-03''\<rparr> =
        (\<Sum>d\<leftarrow>ex_metrics. downloads_at (monthlyStats d)
            (month \<lparr>visits = 1100, downloads = 12, month = ''2024-03''\<rparr>))"
    by blast
  with e show ?thesis by simp
qed

theorem ranking_trend_witness:
  "trend (calculateTopDatasets ex_now ex_metrics ex_metadata Week Visits ! 0) = 50
   \<and> trend (calculateTopDatasets ex_now ex_metrics ex_metadata Week Visits ! 1) = 0
   \<and> trend (calculateTopDatasets ex_now ex_metrics ex_metadata AllTime Visits ! 0) = 0"
proof -
  let ?rs = "calculateTopDatasets ex_now ex_metrics ex_metadata Week Visits"
  let ?at = "calculateTopDatasets ex_now ex_metrics ex_metadata AllTime Visits"
  have m: "?rs ! 0 \<in> set ?rs" "?rs ! 1 \<in> set ?rs" "?at ! 0 \<in> set ?at"
    by (simp_all add: ex_week_visits ex_alltime_visits)
  have v: "previousValue (?rs ! 0) = 200 \<and> value' (?rs ! 0) = 300" "previousValue (?rs ! 1) = 0"
    by (simp_all add: ex_week_visits)
  from ranking_trend [of ex_now ex_metrics ex_metadata Week Visits] m v show ?thesis
    by blast
qed

theorem null_organization_witness:
  "organization (calculateTopDatasets ex_now ex_metrics ex_metadata Week Visits ! 0) = ''Inconnu''
   \<and> organizationId (calculateTopDatasets ex_now ex_metrics ex_metadata Week Visits ! 0) = []
   \<and> organization (createDatasetsIndex ex_key ex_metadata ! 0) = ''Inconnu''
   \<and> organizationId (createDatasetsIndex ex_key ex_metadata ! 0) = []
   \<and> organization (createDatasetStats ex_key (ex_metrics ! 0) (snd (ex_metadata ! 0))) = ''Inconnu''
   \<and> organizationId (createDatasetStats ex_key (ex_metrics ! 0) (snd (ex_metadata ! 0))) = []"
proof -
  let ?rs = "calculateTopDatasets ex_now ex_metrics ex_metadata Week Visits"
  let ?ix = "createDatasetsIndex ex_key ex_metadata"
  let ?md = "snd (ex_metadata ! 0)"
  have d: "distinct (map fst ex_metadata)"
    by (simp add: ex_metadata_def)
  have m: "?rs ! 0 \<in> set ?rs" "?ix ! 0 \<in> set ?ix"
    by (simp_all add: ex_week_visits ex_index)
  have md: "map_of ex_metadata (id' (?rs ! 0)) = Some ?md \<and> ds_organization ?md = None"
    "map_of ex_metadata (id' (?ix ! 0)) = Some ?md \<and> ds_organization ?md = None"
    unfolding ex_week_visits ex_index by (simp_all add: ex_metadata_def)
  from null_organization_is_Inconnu [OF d, of ex_now ex_metrics Week Visits ex_key ex_key] m md
  show ?thesis
    by blast
qed

theorem unresolved_metadata_witness:
  "ex_resolver ''c'' = None
   \<and> ''c'' \<notin> id' ` set (out_topDatasets
        (main ex_key ex_key ex_now ex_api ex_resolver [''a'', ''b'', ''c'']) Week Visits)
   \<and> ''c'' \<notin> id' ` set (out_datasetsIndex
        (main ex_key ex_key ex_now ex_api ex_resolver [''a'', ''b'', ''c'']))
   \<and> ex_metrics ! 2 \<in> set (fetchAllMetrics ex_api [''a'', ''b'', ''c''])
   \<and> g_totalVisits (out_globalStats
        (main ex_key ex_key ex_now ex_api ex_resolver [''a'', ''b'', ''c''])) = 500 + 810
   \<and> (\<exists>e \<in> set (g_monthlyStats (out_globalStats
           (main ex_key ex_key ex_now ex_api ex_resolver [''a'', ''b'', ''c'']))).
         month e = ''2024-03'' \<and> visits e = 500 + 600 \<and> downloads e = 9 + 3)
   \<and> (\<Sum>d\<leftarrow>ex_metrics. visits_at (monthlyStats d) ''2024-03'') = 1100"
proof -
  let ?out = "main ex_key ex_key ex_now ex_api ex_resolver [''a'', ''b'', ''c'']"
  note inst = unresolved_metadata_kept_in_global_only
    [of ex_resolver "''c''" ex_key ex_key ex_now ex_api "[''a'', ''b'', ''c'']"]
  have c: "ex_resolver ''c'' = None"
    by (simp add: ex_resolver_def ex_metadata_def)
  have f: "''c'' \<in> set [''a'', ''b'', ''c'']
      \<and> fetchDatasetMetrics ''c'' (ex_api ''c'') = Inr (ex_metrics ! 2)"
    by (simp add: fetchDatasetMetrics_def ex_api_def ex_entry_def set_entry_def
          num_or_zero_def ex_metrics_def)
  have g: "out_globalStats ?out = calculateGlobalStats ex_key ex_metrics"
    by (simp add: main_def Let_def ex_fetchAllMetrics)
  have e: "\<lparr>visits = 1100, downloads = 12, month = ''2024-03''\<rparr>
      \<in> set (g_monthlyStats (out_globalStats ?out))"
    by (simp add: g ex_global)
  have others: "remove1 (ex_metrics ! 2) ex_metrics = [ex_metrics ! 0, ex_metrics ! 1]"
    by (simp add: ex_metrics_def)
  have series: "(''2024-03'', \<lparr>visits = 500, downloads = 9\<rparr>) \<in> set (monthlyStats (ex_metrics ! 2))"
    by (simp add: ex_metrics_def)
  note i1 = inst [OF c, THEN conjunct1]
    and i2 = inst [OF c, THEN conjunct2, THEN conjunct1]
    and i3 = inst [OF c, THEN conjunct2, THEN conjunct2, THEN conjunct1]
    and i6 = inst [OF c, THEN conjunct2, THEN conjunct2, THEN conjunct2, THEN conjunct2,
      THEN conjunct2, THEN conjunct1]
    and i8 = inst [OF c, THEN conjunct2, THEN conjunct2, THEN conjunct2, THEN conjunct2,
      THEN conjunct2, THEN conjunct2, THEN conjunct2]
  from i1 have a1: "''c'' \<notin> id' ` set (out_topDatasets ?out Week Visits)"
    by blast
  from i3 f have a3: "ex_metrics ! 2 \<in> set (fetchAllMetrics ex_api [''a'', ''b'', ''c''])"
    by blast
  from i8 f have kept: "g_totalVisits (out_globalStats ?out) =
        totalVisits (ex_metrics ! 2)
          + (\<Sum>d\<leftarrow>remove1 (ex_metrics ! 2) (fetchAllMetrics ex_api [''a'', ''b'', ''c'']).
               totalVisits d)
      \<and> g_totalDownloads (out_globalStats ?out) =
        totalDownloads (ex_metrics ! 2)
          + (\<Sum>d\<leftarrow>remove1 (ex_metrics ! 2) (fetchAllMetrics ex_api [''a'', ''b'', ''c'']).
               totalDownloads d)
      \<and> (\<forall>mc \<in> set (monthlyStats (ex_metrics ! 2)).
            \<exists>e \<in> set (g_monthlyStats (out_globalStats ?out)).
              month e = fst mc
            \<and> visits e = visits (snd mc)
                + (\<Sum>d\<leftarrow>remove1 (ex_metrics ! 2) (fetchAllMetrics ex_api [''a'', ''b'', ''c'']).
                     visits_at (monthlyStats d) (fst mc))
            \<and> downloads e = downloads (snd mc)
                + (\<Sum>d\<leftarrow>remove1 (ex_metrics ! 2) (fetchAllMetrics ex_api [''a'', ''b'', ''c'']).
                     downloads_at (monthlyStats d) (fst mc)))"
    by blast
  from kept [THEN conjunct1] have a4: "g_totalVisits (out_globalStats ?out) = 500 + 810"
    by (simp only: ex_fetchAllMetrics others) (simp add: ex_metrics_def)
  from kept [THEN conjunct2, THEN conjunct2] series
  have "\<exists>e \<in> set (g_monthlyStats (out_globalStats ?out)).
      month e = fst (''2024-03'', \<lparr>visits = 500, downloads = 9\<rparr>)
      \<and> visits e = visits (snd (''2024-03'', \<lparr>visits = 500, downloads = 9\<rparr>))
          + (\<Sum>d\<leftarrow>remove1 (ex_metrics ! 2) (fetchAllMetrics ex_api [''a'', ''b'', ''c'']).
               visits_at (monthlyStats d) (fst (''2024-03'', \<lparr>visits = 500, downloads = 9\<rparr>)))
      \<and> downloads e = downloads (snd (''2024-03'', \<lparr>visits = 500, downloads = 9\<rparr>))
          + (\<Sum>d\<leftarrow>remove1 (ex_metrics ! 2) (fetchAllMetrics ex_api [''a'', ''b'', ''c'']).
               downloads_at (monthlyStats d) (fst (''2024-03'', \<lparr>visits = 500, downloads = 9\<rparr>)))"
    by (rule bspec)
  then have a5: "\<exists>e \<in> set (g_monthlyStats (out_globalStats ?out)).
      month e = ''2024-03'' \<and> visits e = 500 + 600 \<and> downloads e = 9 + 3"
    by (simp only: ex_fetchAllMetrics others fst_conv snd_conv)
       (simp add: ex_metrics_def visits_at_def downloads_at_def)
  from i6 e
  have "visits \<lparr>visits = 1100, downloads = 12, month = ''2024-03''\<rparr> =
      (\<Sum>d\<leftarrow>fetchAllMetrics ex_api [''a'', ''b'', ''c''].
          visits_at (monthlyStats d) (month \<lparr>visits = 1100, downloads = 12, month = ''2024-03''\<rparr>))"
    by blast
  then have a6: "(\<Sum>d\<leftarrow>ex_metrics. visits_at (monthlyStats d) ''2024-03'') = 1100"
    by (simp add: ex_fetchAllMetrics)
  from c a1 i2 a3 a4 a5 a6 show ?thesis
    by (simp only: simp_thms)
qed

subsection \<open>Merging new months into a series\<close>

lemma map_of_add_update:
  "map_of (add_update mm u) =
     (map_of mm)(month u \<mapsto> \<lparr>visits = visits_at mm (month u) + visits u,
                               downloads = downloads_at mm (month u) + downloads u\<rparr>)"
  by (auto simp: add_update_def update_conv' visits_at_def downloads_at_def Let_def
           split: option.splits)

lemma visits_at_add_update:
  "visits_at (add_update mm u) k = visits_at mm k + (if month u = k then visits u else 0)"
  by (simp add: visits_at_def [of "add_update mm u"] map_of_add_update)
     (auto simp: visits_at_def)

lemma downloads_at_add_update:
  "downloads_at (add_update mm u) k =
     downloads_at mm k + (if month u = k then downloads u else 0)"
  by (simp add: downloads_at_def [of "add_update mm u"] map_of_add_update)
     (auto simp: downloads_at_def)

lemma visits_at_foldl_add_update:
  "visits_at (foldl add_update mm us) k =
     visits_at mm k + (\<Sum>u\<leftarrow>us. if month u = k then visits u else 0)"
  by (induction us arbitrary: mm) (simp_all add: visits_at_add_update)

lemma downloads_at_foldl_add_update:
  "downloads_at (foldl add_update mm us) k =
     downloads_at mm k + (\<Sum>u\<leftarrow>us. if month u = k then downloads u else 0)"
  by (induction us arbitrary: mm) (simp_all add: downloads_at_add_update)

lemma distinct_foldl_add_update:
  "distinct (map fst mm) \<Longrightarrow> distinct (map fst (foldl add_update mm us))"
  by (induction us arbitrary: mm) (simp_all add: add_update_def Let_def distinct_update)

lemma map_of_foldl_load:
  assumes "distinct (map month xs)"
  shows "map_of (foldl (\<lambda>monthMap stat.
            AList.update (month stat) \<lparr>visits = visits stat, downloads = downloads stat\<rparr> monthMap)
          acc xs) k =
     (case find (\<lambda>s. month s = k) xs of
        None \<Rightarrow> map_of acc k
      | Some s \<Rightarrow> Some \<lparr>visits = visits s, downloads = downloads s\<rparr>)"
  using assms
proof (induction xs arbitrary: acc)
  case Nil
  show ?case by simp
next
  case (Cons x xs)
  show ?case
  proof (cases "month x = k")
    case True
    from Cons.prems have "month x \<notin> month ` set xs"
      by simp
    with True have "\<not> (\<exists>s. s \<in> set xs \<and> month s = k)"
      by blast
    then have "find (\<lambda>s. month s = k) xs = None"
      by (simp add: find_None_iff)
    with Cons True show ?thesis by (simp add: update_conv')
  next
    case False
    with Cons show ?thesis by (simp add: update_conv' split: option.splits)
  qed
qed

lemma visits_at_load_existing:
  "distinct (map month xs) \<Longrightarrow> visits_at (load_existing xs) k = stat_visits xs k"
  by (simp add: visits_at_def load_existing_def map_of_foldl_load stat_visits_def
           split: option.splits)

lemma downloads_at_load_existing:
  "distinct (map month xs) \<Longrightarrow> downloads_at (load_existing xs) k = stat_downloads xs k"
  by (simp add: downloads_at_def load_existing_def map_of_foldl_load stat_downloads_def
           split: option.splits)

lemma distinct_load_existing: "distinct (map fst (load_existing xs))"
proof -
  have "distinct (map fst acc) \<Longrightarrow>
      distinct (map fst (foldl (\<lambda>monthMap stat.
          AList.update (month stat) \<lparr>visits = visits stat, downloads = downloads stat\<rparr> monthMap)
        acc xs))" for acc
    by (induction xs arbitrary: acc) (simp_all add: distinct_update)
  from this [of "[]"] show ?thesis by (simp add: load_existing_def)
qed

lemma find_to_MonthlyStats:
  "find (\<lambda>s. month s = k) (map to_MonthlyStats mm) =
     map_option (\<lambda>c. \<lparr>visits = visits c, downloads = downloads c, month = k\<rparr>) (map_of mm k)"
  by (induction mm) (auto simp: to_MonthlyStats_def)

lemma map_of_sort_key:
  assumes "distinct (map fst mm)"
  shows "map_of (sort_key f mm) = map_of mm"
proof -
  have "distinct (map fst (sort_key f mm))"
    using assms by (simp add: distinct_map)
  then show ?thesis
    using assms by (simp add: map_of_inject_set)
qed

lemma stat_visits_sorted_stats:
  "distinct (map fst mm) \<Longrightarrow> stat_visits (sorted_stats key mm) k = visits_at mm k"
  by (simp add: stat_visits_def sorted_stats_def array_sort_localeCompare find_to_MonthlyStats
        map_of_sort_key visits_at_def split: option.splits)

lemma stat_downloads_sorted_stats:
  "distinct (map fst mm) \<Longrightarrow> stat_downloads (sorted_stats key mm) k = downloads_at mm k"
  by (simp add: stat_downloads_def sorted_stats_def array_sort_localeCompare find_to_MonthlyStats
        map_of_sort_key downloads_at_def split: option.splits)

lemma months_sorted_stats: "map month (sorted_stats key mm) = map fst (sort_key (\<lambda>a. key (fst a)) mm)"
  by (simp add: sorted_stats_def array_sort_localeCompare to_MonthlyStats_def comp_def
        case_prod_beta)

lemma distinct_sorted_stats:
  "distinct (map fst mm) \<Longrightarrow> distinct (map month (sorted_stats key mm))"
  by (simp add: months_sorted_stats distinct_map)

lemma series_updateDatasetStats:
  "s_monthlyStats (updateDatasetStats key existing did newData md) =
     sorted_stats key
       (foldl add_update (load_existing (series_of existing))
          (filter (\<lambda>u. upd_datasetId u = did) newData))"
proof (cases existing)
  case None
  then show ?thesis
    by (simp add: updateDatasetStats_def Let_def series_of_def load_existing_def)
next
  case (Some ex)
  then show ?thesis
    by (simp add: updateDatasetStats_def Let_def series_of_def)
qed

lemma sum_filter_updates:
  "(\<Sum>u\<leftarrow>filter (\<lambda>u. upd_datasetId u = did) us. if month u = k then f u else 0) =
     (\<Sum>u\<leftarrow>us. if upd_datasetId u = did \<and> month u = k then f u else (0::int))"
  by (induction us) simp_all

lemma merged_visits:
  assumes "distinct (map month (series_of existing))"
  shows "stat_visits (s_monthlyStats (updateDatasetStats key existing did newData md)) mo =
     stat_visits (series_of existing) mo + batch_visits newData did mo"
  by (simp add: series_updateDatasetStats stat_visits_sorted_stats distinct_foldl_add_update
        distinct_load_existing visits_at_foldl_add_update visits_at_load_existing [OF assms]
        sum_filter_updates batch_visits_def)

lemma merged_downloads:
  assumes "distinct (map month (series_of existing))"
  shows "stat_downloads (s_monthlyStats (updateDatasetStats key existing did newData md)) mo =
     stat_downloads (series_of existing) mo + batch_downloads newData did mo"
  by (simp add: series_updateDatasetStats stat_downloads_sorted_stats distinct_foldl_add_update
        distinct_load_existing downloads_at_foldl_add_update
        downloads_at_load_existing [OF assms] sum_filter_updates batch_downloads_def)

lemma merged_global:
  assumes "distinct (map month existing)"
  shows "stat_visits (mergeMonthlyData key existing us) mo =
           stat_visits existing mo + (\<Sum>u\<leftarrow>us. if month u = mo then visits u else 0)"
    and "stat_downloads (mergeMonthlyData key existing us) mo =
           stat_downloads existing mo + (\<Sum>u\<leftarrow>us. if month u = mo then downloads u else 0)"
  by (simp_all add: mergeMonthlyData_def stat_visits_sorted_stats stat_downloads_sorted_stats
        distinct_foldl_add_update distinct_load_existing visits_at_foldl_add_update
        downloads_at_foldl_add_update visits_at_load_existing [OF assms]
        downloads_at_load_existing [OF assms])

lemma distinct_updateDatasetStats:
  "distinct (map month (series_of (Some (updateDatasetStats key existing did newData md))))"
  by (simp add: series_of_def series_updateDatasetStats distinct_sorted_stats
        distinct_foldl_add_update distinct_load_existing)

lemma stat_absent:
  "mo \<notin> month ` set xs \<Longrightarrow> stat_visits xs mo = 0 \<and> stat_downloads xs mo = 0"
  by (induction xs) (auto simp: stat_visits_def stat_downloads_def)

lemma fetchNewMonthData_entries:
  "fetchNewMonthData responses = Inr us \<Longrightarrow> us = map to_update (entries_read responses)"
proof -
  have "fetch_updates acc rs = Inr us \<Longrightarrow> us = acc @ map to_update (entries_read rs)"
    for acc rs
  proof (induction rs arbitrary: acc)
    case Nil
    then show ?case by simp
  next
    case (Cons r rs)
    show ?case
    proof (cases "links_next r = None")
      case True
      with Cons.prems show ?thesis by (simp add: Let_def)
    next
      case False
      with Cons.prems have "fetch_updates (acc @ map to_update (data r)) rs = Inr us"
        by (simp add: Let_def)
      moreover from False obtain y where "links_next r = Some y"
        by blast
      ultimately show ?thesis
        using Cons.IH [of "acc @ map to_update (data r)"] by simp
    qed
  qed
  from this [of "[]" responses] show "fetchNewMonthData responses = Inr us \<Longrightarrow>
      us = map to_update (entries_read responses)"
    by (simp add: fetchNewMonthData_def)
qed

text \<open>
  C1. Merging a batch of updates (the records of all the pages fetched, of any order and
  with any repetition) into the stored series of an entity gives a series that holds, at
  each month, the value stored before, 0 when there was none, plus the sum of the values
  of the batch for this entity and this month, for visits and for downloads. Merging the
  same batch again into the result adds the batch a second time. The months of a batch
  are new ones, since a run fetches the months after the last month stored: a month that
  was not in the series before the first merge holds, after the second merge, twice the
  value it held after the first. The months of the stored series are distinct.
\<close>

theorem merge_adds_batch_and_remerge_doubles:
  assumes "distinct (map month (series_of existing))"
  shows "stat_visits (s_monthlyStats (updateDatasetStats key existing did newData md)) mo =
           stat_visits (series_of existing) mo + batch_visits newData did mo
       \<and> stat_downloads (s_monthlyStats (updateDatasetStats key existing did newData md)) mo =
           stat_downloads (series_of existing) mo + batch_downloads newData did mo
       \<and> stat_visits (s_monthlyStats
             (updateDatasetStats key (Some (updateDatasetStats key existing did newData md))
                did newData md)) mo =
           stat_visits (series_of existing) mo + 2 * batch_visits newData did mo
       \<and> stat_downloads (s_monthlyStats
             (updateDatasetStats key (Some (updateDatasetStats key existing did newData md))
                did newData md)) mo =
           stat_downloads (series_of existing) mo + 2 * batch_downloads newData did mo
       \<and> (mo \<notin> month ` set (series_of existing) \<longrightarrow>
            stat_visits (s_monthlyStats
               (updateDatasetStats key (Some (updateDatasetStats key existing did newData md))
                  did newData md)) mo =
              2 * stat_visits (s_monthlyStats (updateDatasetStats key existing did newData md)) mo
          \<and> stat_downloads (s_monthlyStats
               (updateDatasetStats key (Some (updateDatasetStats key existing did newData md))
                  did newData md)) mo =
              2 * stat_downloads (s_monthlyStats (updateDatasetStats key existing did newData md))
                    mo)"
proof -
  let ?once = "updateDatasetStats key existing did newData md"
  let ?twice = "updateDatasetStats key (Some ?once) did newData md"
  have v1: "stat_visits (s_monthlyStats ?once) mo =
      stat_visits (series_of existing) mo + batch_visits newData did mo"
    by (rule merged_visits [OF assms])
  have d1: "stat_downloads (s_monthlyStats ?once) mo =
      stat_downloads (series_of existing) mo + batch_downloads newData did mo"
    by (rule merged_downloads [OF assms])
  have s: "series_of (Some ?once) = s_monthlyStats ?once"
    by (simp add: series_of_def)
  have v2: "stat_visits (s_monthlyStats ?twice) mo =
      stat_visits (s_monthlyStats ?once) mo + batch_visits newData did mo"
    using merged_visits [OF distinct_updateDatasetStats, of key key existing did newData md
        did newData md mo]
    by (simp only: s)
  have d2: "stat_downloads (s_monthlyStats ?twice) mo =
      stat_downloads (s_monthlyStats ?once) mo + batch_downloads newData did mo"
    using merged_downloads [OF distinct_updateDatasetStats, of key key existing did newData md
        did newData md mo]
    by (simp only: s)
  show ?thesis
    using v1 d1 v2 d2 stat_absent [of mo "series_of existing"] by simp
qed

subsection \<open>The directory\<close>

lemma sorted_createDatasetsIndex:
  "sorted (map (\<lambda>s. key_fr (title s)) (createDatasetsIndex key_fr mm))"
  by (simp add: createDatasetsIndex_def array_sort_localeCompare sorted_sort_key)

lemma distinct_map_sort_key: "distinct (map g (sort_key f xs)) = distinct (map g xs)"
  by (simp add: distinct_map)

lemma id_to_summary: "id' (to_summary e) = fst e"
  by (cases e) (simp add: to_summary_def)

lemma distinct_createDatasetsIndex:
  "distinct (map fst mm) \<Longrightarrow> distinct (map id' (createDatasetsIndex key_fr mm))"
  by (simp add: createDatasetsIndex_def array_sort_localeCompare distinct_map_sort_key
        comp_def id_to_summary)

lemma in_set_update:
  "e \<in> set (AList.update k v al) \<Longrightarrow> e = (k, v) \<or> e \<in> set al"
  by (induction al) (auto split: if_splits)

lemma ids_keys_load:
  "\<forall>(k, s) \<in> set acc. id' s = k \<Longrightarrow>
     \<forall>(k, s) \<in> set (foldl (\<lambda>datasetsMap dataset.
          AList.update (id' dataset) dataset datasetsMap) acc ds). id' s = k"
proof (induction ds arbitrary: acc)
  case Nil
  then show ?case by simp
next
  case (Cons d ds)
  have "\<forall>(k, s) \<in> set (AList.update (id' d) d acc). id' s = k"
    using Cons.prems by (auto dest: in_set_update)
  then show ?case
    using Cons.IH by simp
qed

lemma ids_keys_new:
  "\<forall>(k, s) \<in> set acc. id' s = k \<Longrightarrow>
     \<forall>(k, s) \<in> set (foldl (\<lambda>datasetsMap e.
          AList.update (fst e) (to_summary e) datasetsMap) acc es). id' s = k"
proof (induction es arbitrary: acc)
  case Nil
  then show ?case by simp
next
  case (Cons e es)
  have "\<forall>(k, s) \<in> set (AList.update (fst e) (to_summary e) acc). id' s = k"
    using Cons.prems by (auto dest: in_set_update simp: id_to_summary)
  then show ?case
    using Cons.IH by simp
qed

lemma distinct_foldl_update:
  "distinct (map fst acc) \<Longrightarrow>
     distinct (map fst (foldl (\<lambda>m x. AList.update (kf x) (vf x) m) acc xs))"
  by (induction xs arbitrary: acc) (simp_all add: distinct_update)

lemma distinct_updateDatasetsIndex:
  "distinct (map id' (updateDatasetsIndex key_fr existing newMetadata))"
proof -
  let ?loaded = "foldl (\<lambda>datasetsMap dataset. AList.update (id' dataset) dataset datasetsMap) []
      (case existing of None \<Rightarrow> [] | Some ds \<Rightarrow> ds)"
  let ?dm = "foldl (\<lambda>datasetsMap e. AList.update (fst e) (to_summary e) datasetsMap)
      ?loaded newMetadata"
  have "\<forall>(k, s) \<in> set ?loaded. id' s = k"
    by (rule ids_keys_load) simp
  then have "\<forall>(k, s) \<in> set ?dm. id' s = k"
    by (rule ids_keys_new)
  then have eq: "map id' (map snd ?dm) = map fst ?dm"
    by (auto simp: comp_def)
  have "distinct (map fst ?dm)"
    by (intro distinct_foldl_update) simp
  then have "distinct (map id' (map snd ?dm))"
    by (simp only: eq)
  then show ?thesis
    by (simp add: updateDatasetsIndex_def Let_def array_sort_localeCompare
          distinct_map_sort_key)
qed

lemma sorted_updateDatasetsIndex:
  "sorted (map (\<lambda>s. key_fr (title s)) (updateDatasetsIndex key_fr existing newMetadata))"
  by (simp add: updateDatasetsIndex_def Let_def array_sort_localeCompare sorted_sort_key)

lemma sort_three_titles:
  assumes "key_fr ''Agriculture'' < key_fr Election" and "key_fr Election < key_fr Energie"
  shows "map title (createDatasetsIndex key_fr
           [(''e1'', ex_dataset Election), (''a1'', ex_dataset ''Agriculture''),
            (''e2'', ex_dataset Energie)]) =
         [''Agriculture'', Election, Energie]"
proof -
  from assms have "key_fr ''Agriculture'' < key_fr Energie"
    by (rule less_trans)
  with assms show ?thesis
    by (simp add: createDatasetsIndex_def array_sort_def localeCompare_def to_summary_def
          ex_dataset_def not_less [symmetric] less_imp_not_eq less_imp_not_eq2 less_not_sym)
qed

text \<open>
  C8. The directory made from a metadata map has one entry for each identifier and is
  sorted by title under the collation of the locale \<^verbatim>\<open>fr\<close>, whatever collation the
  runtime has: the sort keys of the titles are in non-decreasing order. The incremental
  script makes its directory from the stored one and the new metadata the same way, with
  one entry for each identifier, also when the stored one repeats an identifier. Under a
  collation that puts Agriculture before \<open>Election\<close> and \<open>Election\<close> before \<open>Energie\<close>, as
  the French one does, the titles \<open>Election\<close>, Agriculture, \<open>Energie\<close> (the two with an
  acute accent on E) come out as Agriculture, \<open>Election\<close>, \<open>Energie\<close>.
\<close>

theorem directory_deduplicated_and_sorted_by_collation:
  "sorted (map (\<lambda>s. key_fr (title s)) (createDatasetsIndex key_fr metadataMap))
   \<and> (distinct (map fst metadataMap) \<longrightarrow>
        distinct (map id' (createDatasetsIndex key_fr metadataMap)))
   \<and> id' ` set (createDatasetsIndex key_fr metadataMap) = fst ` set metadataMap
   \<and> sorted (map (\<lambda>s. key_fr (title s)) (updateDatasetsIndex key_fr existing newMetadata))
   \<and> distinct (map id' (updateDatasetsIndex key_fr existing newMetadata))
   \<and> (key_fr ''Agriculture'' < key_fr Election \<and> key_fr Election < key_fr Energie \<longrightarrow>
        map title (createDatasetsIndex key_fr
           [(''e1'', ex_dataset Election), (''a1'', ex_dataset ''Agriculture''),
            (''e2'', ex_dataset Energie)]) =
        [''Agriculture'', Election, Energie])"
proof -
  have "id' ` set (createDatasetsIndex key_fr metadataMap) = fst ` set metadataMap"
    by (simp add: createDatasetsIndex_def set_array_sort image_image id_to_summary)
  then show ?thesis
    using sorted_createDatasetsIndex [of key_fr metadataMap]
      distinct_createDatasetsIndex [of metadataMap key_fr]
      sorted_updateDatasetsIndex [of key_fr existing newMetadata]
      distinct_updateDatasetsIndex [of key_fr existing newMetadata]
      sort_three_titles [of key_fr]
    by blast
qed

subsection \<open>Merge and directory on the example\<close>

lemma ex_stored_series:
  "series_of (Some ex_stored) =
     [\<lparr>visits = 10, downloads = 1, month = ''2024-01''\<rparr>,
      \<lparr>visits = 200, downloads = 2, month = ''2024-02''\<rparr>,
      \<lparr>visits = 300, downloads = 3, month = ''2024-03''\<rparr>]"
  by (simp add: series_of_def ex_stored_def createDatasetStats_def array_sort_def
        localeCompare_def ex_key_def to_MonthlyStats_def ex_metrics_def)

lemma ex_batch:
  "batch_visits ex_updates ''a'' ''2024-04'' = 12"
  "batch_visits ex_updates ''a'' ''2024-03'' = 1"
  by (simp_all add: batch_visits_def ex_updates_def ex_update_def)

theorem merge_witness:
  "stat_visits (s_monthlyStats
       (updateDatasetStats ex_key (Some ex_stored) ''a'' ex_updates (ex_dataset ''A''))) ''2024-04''
     = 12
   \<and> stat_visits (s_monthlyStats
       (updateDatasetStats ex_key
          (Some (updateDatasetStats ex_key (Some ex_stored) ''a'' ex_updates (ex_dataset ''A'')))
          ''a'' ex_updates (ex_dataset ''A''))) ''2024-04''
     = 24
   \<and> stat_visits (s_monthlyStats
       (updateDatasetStats ex_key (Some ex_stored) ''a'' ex_updates (ex_dataset ''A''))) ''2024-03''
     = 301"
proof -
  have d: "distinct (map month (series_of (Some ex_stored)))"
    by (simp add: ex_stored_series)
  have new: "''2024-04'' \<notin> month ` set (series_of (Some ex_stored))"
    by (simp add: ex_stored_series)
  have pre: "stat_visits (series_of (Some ex_stored)) ''2024-04'' = 0"
    "stat_visits (series_of (Some ex_stored)) ''2024-03'' = 300"
    by (simp_all add: ex_stored_series stat_visits_def)
  from merge_adds_batch_and_remerge_doubles
    [OF d, of ex_key "''a''" ex_updates "ex_dataset ''A''" "''2024-04''"] new
  have "stat_visits (s_monthlyStats
       (updateDatasetStats ex_key (Some ex_stored) ''a'' ex_updates (ex_dataset ''A''))) ''2024-04''
     = 12"
    and "stat_visits (s_monthlyStats
       (updateDatasetStats ex_key
          (Some (updateDatasetStats ex_key (Some ex_stored) ''a'' ex_updates (ex_dataset ''A'')))
          ''a'' ex_updates (ex_dataset ''A''))) ''2024-04''
     = 24"
    by (simp_all add: pre ex_batch)
  moreover from merge_adds_batch_and_remerge_doubles
    [OF d, of ex_key "''a''" ex_updates "ex_dataset ''A''" "''2024-03''"]
  have "stat_visits (s_monthlyStats
       (updateDatasetStats ex_key (Some ex_stored) ''a'' ex_updates (ex_dataset ''A''))) ''2024-03''
     = 301"
    by (simp add: pre ex_batch)
  ultimately show ?thesis
    by (simp only: simp_thms)
qed

text \<open>
  A month that the series holds already is not one that a run fetches. Were it in a
  batch, each merge would add the batch to the value stored: March holds 300, then 301,
  then 302.
\<close>

lemma remerge_of_a_stored_month:
  "stat_visits (s_monthlyStats
       (updateDatasetStats ex_key (Some ex_stored) ''a'' ex_updates (ex_dataset ''A''))) ''2024-03''
     = 301
   \<and> stat_visits (s_monthlyStats
       (updateDatasetStats ex_key
          (Some (updateDatasetStats ex_key (Some ex_stored) ''a'' ex_updates (ex_dataset ''A'')))
          ''a'' ex_updates (ex_dataset ''A''))) ''2024-03''
     = 302"
proof -
  have d: "distinct (map month (series_of (Some ex_stored)))"
    by (simp add: ex_stored_series)
  have s: "series_of (Some (updateDatasetStats ex_key (Some ex_stored) ''a'' ex_updates
      (ex_dataset ''A''))) =
      s_monthlyStats (updateDatasetStats ex_key (Some ex_stored) ''a'' ex_updates (ex_dataset ''A''))"
    by (simp add: series_of_def)
  have once: "stat_visits (s_monthlyStats
       (updateDatasetStats ex_key (Some ex_stored) ''a'' ex_updates (ex_dataset ''A''))) ''2024-03''
     = 301"
    using merged_visits [OF d, of ex_key "''a''" ex_updates "ex_dataset ''A''" "''2024-03''"]
    by (simp add: ex_stored_series stat_visits_def ex_batch)
  have "stat_visits (s_monthlyStats
       (updateDatasetStats ex_key
          (Some (updateDatasetStats ex_key (Some ex_stored) ''a'' ex_updates (ex_dataset ''A'')))
          ''a'' ex_updates (ex_dataset ''A''))) ''2024-03''
     = 302"
    using merged_visits [OF distinct_updateDatasetStats,
        of ex_key ex_key "Some ex_stored" "''a''" ex_updates "ex_dataset ''A''"
        "''a''" ex_updates "ex_dataset ''A''" "''2024-03''"]
    by (simp only: s once ex_batch)
  with once show ?thesis
    by (simp only: simp_thms)
qed

theorem directory_witness:
  "map title (createDatasetsIndex ex_key_fr
      [(''e1'', ex_dataset Election), (''a1'', ex_dataset ''Agriculture''),
       (''e2'', ex_dataset Energie)]) =
     [''Agriculture'', Election, Energie]
   \<and> distinct (map id' (createDatasetsIndex ex_key_fr ex_metadata))
   \<and> map title (createDatasetsIndex ex_key_fr
        [(''z1'', ex_dataset ''Zoo''), (''e1'', ex_dataset Election)]) = [Election, ''Zoo'']
   \<and> ''Zoo'' < Election"
proof -
  have h: "ex_key_fr ''Agriculture'' < ex_key_fr Election
      \<and> ex_key_fr Election < ex_key_fr Energie"
    by (simp add: ex_key_fr_def ex_fold_def Election_def Energie_def)
  have d: "distinct (map fst ex_metadata)"
    by (simp add: ex_metadata_def)
  have z: "map title (createDatasetsIndex ex_key_fr
        [(''z1'', ex_dataset ''Zoo''), (''e1'', ex_dataset Election)]) = [Election, ''Zoo'']"
    by (simp add: createDatasetsIndex_def array_sort_def localeCompare_def to_summary_def
          ex_dataset_def ex_key_fr_def ex_fold_def Election_def)
  have r: "''Zoo'' < Election"
    by (simp add: Election_def)
  from directory_deduplicated_and_sorted_by_collation [of ex_key_fr ex_metadata] h d
  have "map title (createDatasetsIndex ex_key_fr
      [(''e1'', ex_dataset Election), (''a1'', ex_dataset ''Agriculture''),
       (''e2'', ex_dataset Energie)]) =
     [''Agriculture'', Election, Energie]
   \<and> distinct (map id' (createDatasetsIndex ex_key_fr ex_metadata))"
    by blast
  with z r show ?thesis
    by (simp only: simp_thms)
qed

subsection \<open>Arithmetic of digits and months\<close>

lemma lex_base:
  "ra < n \<Longrightarrow> rb < n \<Longrightarrow>
     (qa < qb \<or> (qa = qb \<and> ra < rb)) \<longleftrightarrow> n * qa + ra < n * qb + (rb::nat)"
proof -
  assume ra: "ra < n" and rb: "rb < n"
  show ?thesis
  proof (cases "qa < qb")
    case True
    then have "Suc qa \<le> qb" by simp
    then have "n * Suc qa \<le> n * qb" by (rule mult_le_mono2)
    with ra True show ?thesis by simp
  next
    case False
    show ?thesis
    proof (cases "qa = qb")
      case True
      then show ?thesis by simp
    next
      case neq: False
      with False have "Suc qb \<le> qa" by simp
      then have "n * Suc qb \<le> n * qa" by (rule mult_le_mono2)
      with rb False neq show ?thesis by simp
    qed
  qed
qed

lemma div_mod_less:
  "0 < n \<Longrightarrow>
     (a::nat) div n < b div n \<or> (a div n = b div n \<and> a mod n < b mod n) \<longleftrightarrow> a < b"
  using lex_base [of "a mod n" n "b mod n" "a div n" "b div n"] by simp

lemma div_mod_eq: "(a::nat) div n = b div n \<and> a mod n = b mod n \<longleftrightarrow> a = b"
  by (metis div_mult_mod_eq)

lemma int_div_12: "int n div 12 = int (n div 12)"
  by (simp add: zdiv_int)

lemma int_mod_12: "int n mod 12 = int (n mod 12)"
  by (simp add: zmod_int)

lemma succ_div_12: "k div 12 + Suc (k mod 12) div 12 = Suc k div 12"
proof (cases "k mod 12 = 11")
  case True
  then show ?thesis by (simp add: div_Suc mod_Suc)
next
  case False
  moreover have "k mod 12 < 12" by simp
  ultimately have "Suc (k mod 12) < 12" by linarith
  then show ?thesis using False by (simp add: div_Suc mod_Suc)
qed

lemma succ_mod_12: "Suc (k mod 12) mod 12 = Suc k mod 12"
  by (simp add: mod_Suc_eq)

lemma next_month_number:
  "k div 12 + (k mod 12 + 1) div 12 = Suc k div 12" "(k mod 12 + 1) mod 12 = Suc k mod 12"
  using succ_div_12 [of k] succ_mod_12 [of k] by simp_all

lemma month_two_digits: "Suc (k mod 12) < 10 ^ 2"
proof -
  have "k mod 12 < 12" by simp
  then show ?thesis by simp
qed

subsection \<open>Months as strings\<close>

lemma length_pad: "length (pad k n) = k"
  by (induction k arbitrary: n) simp_all

lemma digit_char_less:
  "a < 10 \<Longrightarrow> b < 10 \<Longrightarrow> digit_char a < digit_char b \<longleftrightarrow> a < b"
  by (simp add: digit_char_def less_char_def)

lemma digit_char_eq:
  "a < 10 \<Longrightarrow> b < 10 \<Longrightarrow> digit_char a = digit_char b \<longleftrightarrow> a = b"
  by (simp add: digit_char_def)

lemma digit_val_digit_char: "d < 10 \<Longrightarrow> digit_val (digit_char d) = Some d"
  by (simp add: digit_val_def digit_char_def Let_def)

lemma digit_char_not_dash:
  assumes "d < 10"
  shows "digit_char d \<noteq> CHR ''-''"
proof
  assume "digit_char d = CHR ''-''"
  then have "of_char (digit_char d) = (of_char (CHR ''-'') :: nat)"
    by simp
  with assms show False
    by (simp add: digit_char_def)
qed

lemma pad_not_dash: "c \<in> set (pad k n) \<Longrightarrow> c \<noteq> CHR ''-''"
proof (induction k arbitrary: n)
  case 0
  then show ?case by simp
next
  case (Suc k)
  from Suc.prems have "c \<in> set (pad k (n div 10)) \<or> c = digit_char (n mod 10)"
    by auto
  then show ?case
  proof
    assume "c \<in> set (pad k (n div 10))"
    then show ?thesis by (rule Suc.IH)
  next
    assume "c = digit_char (n mod 10)"
    then show ?thesis by (simp add: digit_char_not_dash)
  qed
qed

text \<open>For strings of one length, the order of the strings is the order of their parts.\<close>

lemma less_append_same_length:
  "length xs = length ys \<Longrightarrow>
     xs @ us < ys @ vs \<longleftrightarrow> xs < ys \<or> (xs = ys \<and> us < vs)"
  for xs ys :: string
  by (induction xs ys rule: list_induct2) auto

lemma pad_less_eq:
  "a < 10 ^ k \<Longrightarrow> b < 10 ^ k \<Longrightarrow>
     (pad k a < pad k b \<longleftrightarrow> a < b) \<and> (pad k a = pad k b \<longleftrightarrow> a = b)"
proof (induction k arbitrary: a b)
  case 0
  then show ?case by simp
next
  case (Suc k)
  from Suc.prems have "a div 10 < 10 ^ k" and "b div 10 < 10 ^ k"
    by (simp_all add: less_mult_imp_div_less mult.commute)
  from Suc.IH [OF this]
  have less: "pad k (a div 10) < pad k (b div 10) \<longleftrightarrow> a div 10 < b div 10"
    and eq: "pad k (a div 10) = pad k (b div 10) \<longleftrightarrow> a div 10 = b div 10"
    by simp_all
  have d: "digit_char (a mod 10) < digit_char (b mod 10) \<longleftrightarrow> a mod 10 < b mod 10"
    "digit_char (a mod 10) = digit_char (b mod 10) \<longleftrightarrow> a mod 10 = b mod 10"
    by (simp_all add: digit_char_less digit_char_eq)
  have "pad (Suc k) a < pad (Suc k) b \<longleftrightarrow>
      a div 10 < b div 10 \<or> (a div 10 = b div 10 \<and> a mod 10 < b mod 10)"
    by (simp add: less_append_same_length length_pad less eq d)
  moreover have "pad (Suc k) a = pad (Suc k) b \<longleftrightarrow> a div 10 = b div 10 \<and> a mod 10 = b mod 10"
    by (simp add: eq d)
  moreover have "a div 10 < b div 10 \<or> (a div 10 = b div 10 \<and> a mod 10 < b mod 10) \<longleftrightarrow> a < b"
    by (rule div_mod_less) simp
  moreover have "a div 10 = b div 10 \<and> a mod 10 = b mod 10 \<longleftrightarrow> a = b"
    by (rule div_mod_eq)
  ultimately show ?case by (simp only:)
qed

lemma month_string_less:
  assumes "k < 120000" and "k' < 120000"
  shows "month_string k < month_string k' \<longleftrightarrow> k < k'"
proof -
  have y: "k div 12 < 10 ^ 4" "k' div 12 < 10 ^ 4"
    using assms by simp_all
  note m = month_two_digits [of k] month_two_digits [of k']
  have "month_string k < month_string k' \<longleftrightarrow>
      pad 4 (k div 12) < pad 4 (k' div 12)
      \<or> (pad 4 (k div 12) = pad 4 (k' div 12)
         \<and> pad 2 (Suc (k mod 12)) < pad 2 (Suc (k' mod 12)))"
    by (simp add: month_string_def less_append_same_length length_pad)
  also have "\<dots> \<longleftrightarrow>
      k div 12 < k' div 12 \<or> (k div 12 = k' div 12 \<and> Suc (k mod 12) < Suc (k' mod 12))"
    using pad_less_eq [OF y] pad_less_eq [OF m] by (simp only:)
  also have "\<dots> \<longleftrightarrow> k div 12 < k' div 12 \<or> (k div 12 = k' div 12 \<and> k mod 12 < k' mod 12)"
    by simp
  also have "\<dots> \<longleftrightarrow> k < k'"
    by (rule div_mod_less) simp
  finally show ?thesis .
qed

lemma month_string_le:
  assumes "k < 120000" and "k' < 120000"
  shows "month_string k \<le> month_string k' \<longleftrightarrow> k \<le> k'"
  using month_string_less [OF assms(2) assms(1)] by (simp add: not_less [symmetric])

subsection \<open>The month after a month\<close>

lemma digits_val_append:
  "digits_val acc (xs @ ys) =
     (case digits_val acc xs of None \<Rightarrow> None | Some a \<Rightarrow> digits_val a ys)"
  by (induction xs arbitrary: acc) (simp_all split: option.splits)

lemma digits_val_pad: "digits_val acc (pad k n) = Some (acc * 10 ^ k + n mod 10 ^ k)"
proof (induction k arbitrary: n)
  case 0
  show ?case by simp
next
  case (Suc k)
  have "n mod (10 * 10 ^ k) = 10 * (n div 10 mod 10 ^ k) + n mod 10"
    by (simp add: mod_mult2_eq)
  then show ?case
    by (simp add: digits_val_append Suc.IH digit_val_digit_char algebra_simps)
qed

lemma Number_pad: "0 < k \<Longrightarrow> n < 10 ^ k \<Longrightarrow> Number (pad k n) = Some n"
proof -
  assume "0 < k" and "n < 10 ^ k"
  moreover from \<open>0 < k\<close> have "pad k n \<noteq> []"
    using length_pad [of k n] by auto
  ultimately show ?thesis
    by (simp add: Number_def digits_val_pad)
qed

lemma split_month_string:
  assumes "k < 120000"
  shows "split_month (month_string k) = Some (k div 12, k mod 12 + 1)"
proof -
  let ?y = "pad 4 (k div 12)" and ?m = "pad 2 (k mod 12 + 1)"
  have nd: "\<forall>c \<in> set ?y. c \<noteq> CHR ''-''"
    by (blast dest: pad_not_dash)
  have s: "month_string k = ?y @ CHR ''-'' # ?m"
    by (simp add: month_string_def)
  have t: "takeWhile (\<lambda>c. c \<noteq> CHR ''-'') (?y @ CHR ''-'' # ?m) = ?y"
    using nd by (simp add: takeWhile_append2)
  have d: "dropWhile (\<lambda>c. c \<noteq> CHR ''-'') (?y @ CHR ''-'' # ?m) = CHR ''-'' # ?m"
    using nd by (simp add: dropWhile_append2)
  have y: "Number ?y = Some (k div 12)"
    using assms by (intro Number_pad) simp_all
  have "k mod 12 + 1 < 10 ^ 2"
    using month_two_digits [of k] by simp
  then have m: "Number ?m = Some (k mod 12 + 1)"
    by (intro Number_pad) simp_all
  show ?thesis
    unfolding split_month_def s t d by (simp only: y m list.case option.case prod.case)
qed

lemma iso_month_month_string:
  assumes "0 \<le> d_year d" and "d_year d \<le> 9999" and "d_month d < 12"
  shows "iso_month d = month_string (month_number d)"
proof -
  have "(nat (d_year d) * 12 + d_month d) div 12 = nat (d_year d)"
    and "(nat (d_year d) * 12 + d_month d) mod 12 = d_month d"
    using assms(3) by simp_all
  with assms show ?thesis
    by (simp add: iso_month_def month_string_def month_number_def Let_def)
qed

lemma MakeDay_first:
  "MakeDay (int y) (int mn) 1 = \<lparr>d_year = int (y + mn div 12), d_month = mn mod 12, d_date = 1\<rparr>"
proof -
  have "1 \<le> days_in_month (int y + int mn div 12) (nat (int mn mod 12))"
    by (simp add: days_in_month_def)
  then show ?thesis
    by (simp add: MakeDay_def Let_def int_div_12 int_mod_12)
qed

lemma getNextMonth_month_string:
  assumes "1200 \<le> k" and "k < 119999"
  shows "getNextMonth (month_string k) = Some (month_string (Suc k))"
proof -
  let ?d = "\<lparr>d_year = int (Suc k div 12), d_month = Suc k mod 12, d_date = 1\<rparr>"
  have big: "\<not> k div 12 \<le> 99"
    using assms(1) by simp
  have d: "MakeDay (int (k div 12)) (int (k mod 12 + 1)) 1 = ?d"
    by (simp only: MakeDay_first next_month_number)
  have num: "month_number ?d = Suc k"
    by (simp add: month_number_def)
  have range: "d_year ?d * 12 + int (d_month ?d) \<le> 275760 * 12 + 8"
    using assms(2) by simp
  have "0 \<le> d_year ?d" and "d_year ?d \<le> 9999" and "d_month ?d < 12"
    using assms(2) by simp_all
  then have "iso_month ?d = month_string (month_number ?d)"
    by (rule iso_month_month_string)
  then have iso: "iso_month ?d = month_string (Suc k)"
    by (simp only: num)
  have "Date_UTC (k div 12) (k mod 12 + 1) = Some ?d"
    by (simp only: Date_UTC_def Let_def big if_False d range if_True)
  moreover from assms(2) have "split_month (month_string k) = Some (k div 12, k mod 12 + 1)"
    by (intro split_month_string) simp
  ultimately show ?thesis
    by (simp only: getNextMonth_def option.case prod.case option.map iso)
qed

lemma months_loop_month_string:
  assumes "n < 119999"
  shows "1200 \<le> c \<Longrightarrow> c < 120000 \<Longrightarrow>
     months_loop (month_string n) (month_string c) acc =
       Some (acc @ map month_string [c..<Suc n])"
proof (induction "Suc n - c" arbitrary: c acc)
  case 0
  then have c: "n < c" by simp
  with assms 0 have "\<not> month_string c \<le> month_string n"
    by (simp add: month_string_le)
  then show ?case
    using c by (subst months_loop.simps) simp
next
  case (Suc x)
  then have le: "c \<le> n" and x: "x = Suc n - Suc c" by simp_all
  with assms have "month_string c \<le> month_string n"
    by (simp add: month_string_le)
  moreover from le assms Suc.prems have "getNextMonth (month_string c) = Some (month_string (Suc c))"
    by (intro getNextMonth_month_string) simp_all
  moreover from Suc.prems le assms have "1200 \<le> Suc c" and "Suc c < 120000" by simp_all
  note Suc.hyps(1) [OF x this, of "acc @ [month_string c]"]
  ultimately show ?case
    using le by (subst months_loop.simps) (simp add: upt_conv_Cons del: upt_Suc)
qed

subsection \<open>The months to fetch\<close>

lemma month_number_bound:
  assumes "0 \<le> d_year now" and "d_year now \<le> 9998" and "d_month now < 12"
  shows "month_number now < 119999"
proof -
  from assms(1,2) have "nat (d_year now) \<le> 9998" by simp
  then have "nat (d_year now) * 12 \<le> 9998 * 12" by (rule mult_le_mono1)
  with assms(3) show ?thesis by (simp add: month_number_def)
qed

lemma getMonthsToFetch_month_string:
  assumes "1200 \<le> l" and "l < 119999"
    and "0 \<le> d_year now" and "d_year now \<le> 9998" and "d_month now < 12"
  shows "getMonthsToFetch now (month_string l) =
     Some (map month_string [Suc l..<Suc (month_number now)])"
proof -
  have n: "month_number now < 119999"
    by (rule month_number_bound [OF assms(3-5)])
  from assms(3-5) have cur: "getCurrentMonth now = month_string (month_number now)"
    by (simp add: getCurrentMonth_def iso_month_month_string)
  have nxt: "getNextMonth (month_string l) = Some (month_string (Suc l))"
    by (rule getNextMonth_month_string [OF assms(1,2)])
  from assms(1,2) have "1200 \<le> Suc l" and "Suc l < 120000" by simp_all
  from months_loop_month_string [OF n this, of "[]"] show ?thesis
    by (simp add: getMonthsToFetch_def nxt cur)
qed

lemma sorted_last_greatest:
  "sorted (map f xs) \<Longrightarrow> x \<in> set xs \<Longrightarrow> f x \<le> f (last xs)"
proof (induction xs)
  case Nil
  then show ?case by simp
next
  case (Cons a xs)
  then show ?case by (cases "xs = []") auto
qed

text \<open>
  C6. The months to fetch are the months strictly after the last month of the stored
  global series, through the month of the current date inclusive, in order: for a last
  month number \<open>l\<close> and a current month number \<open>n\<close>, the months \<open>l + 1, ..., n\<close>, each found
  as the month after the one before and compared with the current month as a string,
  which on these strings is the order of the months. When there is none (the current
  month is the last month, or before it), a run returns at once as up to date, neither
  as an error nor through the later steps, and leaves the stored files as they are;
  otherwise it goes on with exactly these months. The last month of the stored series is
  its latest when the series is in ascending order. Stated for months from year 100 and
  dates to year 9998, where a month is written with a year of four digits.
\<close>

theorem months_to_fetch_and_up_to_date:
  assumes "1200 \<le> l" and "l < 119999"
    and "0 \<le> d_year now" and "d_year now \<le> 9998" and "d_month now < 12"
  shows "getMonthsToFetch now (month_string l) =
           Some (map month_string [Suc l..<Suc (month_number now)])
       \<and> getCurrentMonth now = month_string (month_number now)
       \<and> (\<forall>k k'. k < 120000 \<and> k' < 120000 \<longrightarrow>
             (month_string k \<le> month_string k' \<longleftrightarrow> k \<le> k'))
       \<and> (file_globalStats store = Some gs \<and> g_monthlyStats gs \<noteq> []
            \<and> month (last (g_monthlyStats gs)) = month_string l \<longrightarrow>
          (month_number now \<le> l \<longrightarrow> main_incremental steps now store = (UpToDate, store))
          \<and> (l < month_number now \<longrightarrow>
               main_incremental steps now store =
                 steps (map month_string [Suc l..<Suc (month_number now)]) store)
          \<and> (sorted (map month (g_monthlyStats gs)) \<longrightarrow>
               (\<forall>x \<in> set (g_monthlyStats gs). month x \<le> month_string l)))"
proof -
  note fetch = getMonthsToFetch_month_string [OF assms]
  have cur: "getCurrentMonth now = month_string (month_number now)"
    using assms(3-5) by (simp add: getCurrentMonth_def iso_month_month_string)
  have order: "\<forall>k k'. k < 120000 \<and> k' < 120000 \<longrightarrow>
      (month_string k \<le> month_string k' \<longleftrightarrow> k \<le> k')"
    by (simp add: month_string_le)
  have run: "(month_number now \<le> l \<longrightarrow> main_incremental steps now store = (UpToDate, store))
      \<and> (l < month_number now \<longrightarrow>
           main_incremental steps now store =
             steps (map month_string [Suc l..<Suc (month_number now)]) store)
      \<and> (sorted (map month (g_monthlyStats gs)) \<longrightarrow>
           (\<forall>x \<in> set (g_monthlyStats gs). month x \<le> month_string l))"
    if gs: "file_globalStats store = Some gs" and ne: "g_monthlyStats gs \<noteq> []"
      and last: "month (last (g_monthlyStats gs)) = month_string l"
  proof (intro conjI impI ballI)
    assume "month_number now \<le> l"
    then show "main_incremental steps now store = (UpToDate, store)"
      by (simp add: main_incremental_def gs ne last fetch)
  next
    assume "l < month_number now"
    then show "main_incremental steps now store =
        steps (map month_string [Suc l..<Suc (month_number now)]) store"
      by (simp add: main_incremental_def gs ne last fetch del: upt_Suc)
  next
    fix x
    assume "sorted (map month (g_monthlyStats gs))" and "x \<in> set (g_monthlyStats gs)"
    then have "month x \<le> month (last (g_monthlyStats gs))"
      by (rule sorted_last_greatest)
    then show "month x \<le> month_string l"
      by (simp only: last)
  qed
  from fetch cur order run show ?thesis
    by blast
qed

subsection \<open>The windows of the periods\<close>

lemma getMonthsAgo_before_29th:
  assumes "d_date now \<le> 28" and "0 \<le> d_year now" and "d_year now \<le> 9999"
    and "d_month now < 12" and "n \<le> month_number now"
  shows "getMonthsAgo now n = month_string (month_number now - n)"
proof -
  let ?t = "month_number now - n"
  let ?d = "\<lparr>d_year = int (?t div 12), d_month = ?t mod 12, d_date = d_date now\<rparr>"
  have t: "int ?t = d_year now * 12 + (int (d_month now) - int n)"
    using assms(2,5) by (simp add: month_number_def of_nat_diff)
  have "(12 * d_year now + (int (d_month now) - int n)) div 12 =
      d_year now + (int (d_month now) - int n) div 12"
    by simp
  then have yr: "d_year now + (int (d_month now) - int n) div 12 = int (?t div 12)"
    by (simp add: t int_div_12 [symmetric] mult.commute)
  have "(12 * d_year now + (int (d_month now) - int n)) mod 12 =
      (int (d_month now) - int n) mod 12"
    by simp
  then have "(int (d_month now) - int n) mod 12 = int (?t mod 12)"
    by (simp add: t int_mod_12 [symmetric] mult.commute)
  then have mo: "nat ((int (d_month now) - int n) mod 12) = ?t mod 12"
    by simp
  have "28 \<le> days_in_month y m" for y m
    by (simp add: days_in_month_def)
  with assms(1) have "d_date now \<le> days_in_month y m" for y m
    by (rule le_trans)
  then have "setMonth now (int (d_month now) - int n) = ?d"
    by (simp add: setMonth_def MakeDay_def Let_def yr mo)
  moreover have "0 \<le> d_year ?d" and "d_month ?d < 12"
    by simp_all
  moreover have "d_year ?d \<le> 9999"
  proof -
    have "?t \<le> month_number now" by simp
    also have "month_number now < 10000 * 12"
      using assms(2-4) by (simp add: month_number_def)
    finally have "?t div 12 < 10000" by simp
    then show ?thesis by simp
  qed
  moreover have "month_number ?d = ?t"
    by (simp add: month_number_def)
  ultimately show ?thesis
    using iso_month_month_string [of ?d] by (simp add: getMonthsAgo_def)
qed

lemma periods_before_29th:
  assumes "d_date now \<le> 28" and "0 \<le> d_year now" and "d_year now \<le> 9999"
    and "d_month now < 12" and "24 \<le> month_number now"
  shows "getCurrentMonth now = month_string (month_number now)"
    and "periods now Week =
      \<lparr>start = month_string (month_number now),
       prevStart = month_string (month_number now - 1),
       prevEnd = month_string (month_number now - 1)\<rparr>"
    and "periods now Month =
      \<lparr>start = month_string (month_number now - 1),
       prevStart = month_string (month_number now - 2),
       prevEnd = month_string (month_number now - 2)\<rparr>"
    and "periods now Year =
      \<lparr>start = month_string (month_number now - 12),
       prevStart = month_string (month_number now - 24),
       prevEnd = month_string (month_number now - 13)\<rparr>"
    and "periods now AllTime =
      \<lparr>start = ''2022-07'', prevStart = ''2022-07'', prevEnd = ''2022-07''\<rparr>"
proof -
  have ago: "getMonthsAgo now n = month_string (month_number now - n)" if "n \<le> 24" for n
    using assms(1-4) by (rule getMonthsAgo_before_29th) (use that assms(5) in simp)
  show "getCurrentMonth now = month_string (month_number now)"
    using assms(2-4) by (simp add: getCurrentMonth_def iso_month_month_string)
  show "periods now Week =
      \<lparr>start = month_string (month_number now),
       prevStart = month_string (month_number now - 1),
       prevEnd = month_string (month_number now - 1)\<rparr>"
    using ago [of 0] ago [of 1] by (simp add: periods_def)
  show "periods now Month =
      \<lparr>start = month_string (month_number now - 1),
       prevStart = month_string (month_number now - 2),
       prevEnd = month_string (month_number now - 2)\<rparr>"
    using ago [of 1] ago [of 2] by (simp add: periods_def)
  show "periods now Year =
      \<lparr>start = month_string (month_number now - 12),
       prevStart = month_string (month_number now - 24),
       prevEnd = month_string (month_number now - 13)\<rparr>"
    using ago [of 12] ago [of 24] ago [of 13] by (simp add: periods_def)
  show "periods now AllTime =
      \<lparr>start = ''2022-07'', prevStart = ''2022-07'', prevEnd = ''2022-07''\<rparr>"
    by (simp add: periods_def)
qed

lemma ex_31st_months:
  "getCurrentMonth ex_31st = ''2024-03''"
  "getMonthsAgo ex_31st 0 = ''2024-03''"
  "getMonthsAgo ex_31st 1 = ''2024-03''"
  "getMonthsAgo ex_31st (Suc 0) = ''2024-03''"
  "getMonthsAgo ex_31st 2 = ''2024-01''"
  "getMonthsAgo ex_31st 12 = ''2023-03''"
  "getMonthsAgo ex_31st 13 = ''2023-03''"
  "getMonthsAgo ex_31st 24 = ''2022-03''"
  by (simp_all add: ex_31st_def date_eval)

lemma ex_31st_week:
  "datasetsWithStats ex_31st Week ex_metrics ex_metadata =
     [\<lparr>metrics = ex_metrics ! 0, metadata = snd (ex_metadata ! 0),
       current = \<lparr>visits = 300, downloads = 3\<rparr>, previous = \<lparr>visits = 300, downloads = 3\<rparr>\<rparr>,
      \<lparr>metrics = ex_metrics ! 1, metadata = snd (ex_metadata ! 1),
       current = \<lparr>visits = 300, downloads = 0\<rparr>, previous = \<lparr>visits = 300, downloads = 0\<rparr>\<rparr>]"
  by (simp add: datasetsWithStats_def periods_def ex_31st_months getStatsForPeriod_def
        ex_metrics_def ex_metadata_def)

text \<open>
  C3, on the last day of March 2024. The previous window of the period week should be
  February, and the current window of the period month February and March. The month
  before is found by \<^verbatim>\<open>setMonth\<close> on the 31st, which leaves February for the 2nd of March:
  the previous window of week is March, the current window itself; the current window of
  month is March alone; the previous window of year ends in March 2023 and not in
  February 2023. The first entry of the week ranking has then 300 as its previous value,
  the visits of March, and not the 200 of February.
\<close>

theorem windows_on_the_31st_of_March:
  "getCurrentMonth ex_31st = ''2024-03''
   \<and> periods ex_31st Week =
       \<lparr>start = ''2024-03'', prevStart = ''2024-03'', prevEnd = ''2024-03''\<rparr>
   \<and> periods ex_31st Month =
       \<lparr>start = ''2024-03'', prevStart = ''2024-01'', prevEnd = ''2024-01''\<rparr>
   \<and> periods ex_31st Year =
       \<lparr>start = ''2023-03'', prevStart = ''2022-03'', prevEnd = ''2023-03''\<rparr>
   \<and> calculateTopDatasets ex_31st ex_metrics ex_metadata Week Visits ! 0 =
       \<lparr>id' = ''a'', title = ''Agriculture'', slug = ''agriculture'', organization = ''Inconnu'',
        organizationId = [], value' = 300, previousValue = 300, trend = 0, rank = 1\<rparr>"
proof -
  have "calculateTopDatasets ex_31st ex_metrics ex_metadata Week Visits ! 0 =
       \<lparr>id' = ''a'', title = ''Agriculture'', slug = ''agriculture'', organization = ''Inconnu'',
        organizationId = [], value' = 300, previousValue = 300, trend = 0, rank = 1\<rparr>"
    unfolding calculateTopDatasets_def Let_def ex_31st_week
    by (simp add: array_sort_def map_index_def
          TOP_DATASETS_COUNT_def createRanking_def organization_name_def organization_id_def
          str_or_def upt_rec ex_metrics_def ex_metadata_def)
  then show ?thesis
    by (simp add: periods_def ex_31st_months)
qed

subsection \<open>The months to fetch on the example\<close>

lemma ex_month_strings:
  "month_string 24288 = ''2024-01''"
  "month_string 24289 = ''2024-02''"
  "month_string 24290 = ''2024-03''"
  by (simp_all add: month_string_def pad2 pad4 digit_chars)

theorem months_to_fetch_witness:
  "getMonthsToFetch ex_now ''2024-01'' = Some [''2024-02'', ''2024-03'']
   \<and> main_incremental ex_steps ex_now ex_store = (UpToDate, ex_store)"
proof -
  have n: "month_number ex_now = 24290"
    by (simp add: month_number_def ex_now_def)
  have now: "0 \<le> d_year ex_now" "d_year ex_now \<le> 9998" "d_month ex_now < 12"
    by (simp_all add: ex_now_def)
  have l1: "1200 \<le> (24288::nat)" "(24288::nat) < 119999"
    and l2: "1200 \<le> (24290::nat)" "(24290::nat) < 119999"
    by simp_all
  have u: "[Suc 24288..<Suc 24290] = [24289, 24290]"
    by (simp add: upt_rec)
  have st: "file_globalStats ex_store = Some (calculateGlobalStats ex_key ex_metrics)
      \<and> g_monthlyStats (calculateGlobalStats ex_key ex_metrics) \<noteq> []
      \<and> month (last (g_monthlyStats (calculateGlobalStats ex_key ex_metrics))) =
          month_string 24290"
    by (simp add: ex_store_def ex_global ex_month_strings)
  from months_to_fetch_and_up_to_date [OF l1 now]
  have "getMonthsToFetch ex_now (month_string 24288) =
      Some (map month_string [Suc 24288..<Suc (month_number ex_now)])"
    by blast
  then have "getMonthsToFetch ex_now ''2024-01'' = Some [''2024-02'', ''2024-03'']"
    by (simp only: n u ex_month_strings list.map)
  moreover from months_to_fetch_and_up_to_date
    [OF l2 now, of ex_store "calculateGlobalStats ex_key ex_metrics" ex_steps] st n
  have "main_incremental ex_steps ex_now ex_store = (UpToDate, ex_store)"
    by simp
  ultimately show ?thesis
    by (simp only: simp_thms)
qed

subsection \<open>Rankings on the examples\<close>

lemma insort_key_last: "\<forall>y \<in> set ys. f y < f x \<Longrightarrow> insort_key f x ys = ys @ [x]"
  by (induction ys) auto

lemma foldr_insort_descending:
  assumes K: "\<And>i. K (F i) = - int i"
  shows "n \<le> m \<Longrightarrow>
    foldr (insort_key K) (map F [0..<n]) (map F (rev [n..<m])) = map F (rev [0..<m])"
proof (induction n)
  case 0
  show ?case by simp
next
  case (Suc n)
  then have n: "n < m" by simp
  have "insort_key K (F n) (map F (rev [Suc n..<m])) = map F (rev [Suc n..<m]) @ [F n]"
    by (rule insort_key_last) (auto simp: K)
  also have "\<dots> = map F (rev [n..<m])"
    using n by (simp add: upt_conv_Cons del: upt_Suc)
  finally have "foldr (insort_key K) (map F [0..<Suc n]) (map F (rev [Suc n..<m])) =
      foldr (insort_key K) (map F [0..<n]) (map F (rev [n..<m]))"
    by simp
  with Suc.IH n show ?case by simp
qed

lemma sort_key_descending:
  assumes "\<And>i. K (F i) = - int i"
  shows "sort_key K (map F [0..<n]) = map F (rev [0..<n])"
  using foldr_insort_descending [of K F n n, OF assms] by (simp add: sort_key_def)

lemma ex_many_keep:
  "filter (\<lambda>m. map_of ex_many_metadata (datasetId m) \<noteq> None) ex_many = ex_many"
  by (auto simp: ex_many_metadata_def map_of_eq_None_iff image_iff filter_id_conv)

lemma ex_many_value:
  "window_value ex_now Week Visits
     \<lparr>datasetId = i, monthlyStats = [(''2024-03'', \<lparr>visits = v, downloads = w\<rparr>)],
      totalVisits = t, totalDownloads = u\<rparr> = v"
  by (simp add: window_value_def metric_of_def getStatsForPeriod_def periods_def ex_months)

lemma ex_many_sorted:
  "map (\<lambda>m. (datasetId m, window_value ex_now Week Visits m))
     (sort_key (\<lambda>m. - window_value ex_now Week Visits m)
        (filter (\<lambda>m. map_of ex_many_metadata (datasetId m) \<noteq> None) ex_many)) =
   map (\<lambda>n. (pad 3 n, int n)) (rev [0..<101])"
proof -
  let ?F = "\<lambda>n. \<lparr>datasetId = pad 3 n,
               monthlyStats = [(''2024-03'', \<lparr>visits = int n, downloads = 0\<rparr>)],
               totalVisits = int n, totalDownloads = 0\<rparr>"
  have "(\<lambda>m. - window_value ex_now Week Visits m) (?F i) = - int i" for i
    by (simp only: ex_many_value)
  from sort_key_descending [of "\<lambda>m. - window_value ex_now Week Visits m" ?F 101, OF this]
  have "sort_key (\<lambda>m. - window_value ex_now Week Visits m) (map ?F [0..<101]) =
      map ?F (rev [0..<101])" .
  then have "sort_key (\<lambda>m. - window_value ex_now Week Visits m) ex_many = map ?F (rev [0..<101])"
    by (simp only: ex_many_def)
  then show ?thesis
    by (simp only: ex_many_keep) (simp add: ex_many_value comp_def)
qed

lemma pad3:
  "pad 3 n = [digit_char (n div 10 div 10 mod 10), digit_char (n div 10 mod 10),
              digit_char (n mod 10)]"
proof -
  have e: "(3::nat) = Suc (Suc (Suc 0))" by simp
  show ?thesis unfolding e by simp
qed

lemma pad3_inj:
  assumes "n < 1000" and "k < 1000" and eq: "pad 3 n = pad 3 k"
  shows "n = k"
proof -
  have p: "(0::nat) < 3" by simp
  from assms(1) have "n < 10 ^ 3" by simp
  from Number_pad [OF p this] have n: "Number (pad 3 n) = Some n" .
  from assms(2) have "k < 10 ^ 3" by simp
  from Number_pad [OF p this] have k: "Number (pad 3 k) = Some k" .
  from n k eq show ?thesis by (metis option.inject)
qed

lemma ex_many_length: "length ex_many = 101"
  by (simp add: ex_many_def)

lemma ex_many_first:
  "ex_many ! 0 \<in> set ex_many" "datasetId (ex_many ! 0) = ''000''"
  "map_of ex_many_metadata (datasetId (ex_many ! 0)) \<noteq> None"
proof -
  show m: "ex_many ! 0 \<in> set ex_many"
    by (rule nth_mem) (simp add: ex_many_length)
  have "ex_many ! 0 = \<lparr>datasetId = pad 3 0,
               monthlyStats = [(''2024-03'', \<lparr>visits = int 0, downloads = 0\<rparr>)],
               totalVisits = int 0, totalDownloads = 0\<rparr>"
    unfolding ex_many_def by (subst nth_map) simp_all
  then show "datasetId (ex_many ! 0) = ''000''"
    by (simp add: pad3 digit_chars)
  from m show "map_of ex_many_metadata (datasetId (ex_many ! 0)) \<noteq> None"
    by (auto simp: ex_many_metadata_def map_of_eq_None_iff image_iff)
qed

text \<open>
  On the first example the two entries have the value 300 and keep the order of the
  input. On the second one the list starts with the dataset \<open>100\<close> and leaves out the
  dataset \<open>000\<close>, the one of least value.
\<close>

theorem ranking_order_witness:
  "value' (calculateTopDatasets ex_now ex_metrics ex_metadata Week Visits ! 1)
     \<le> value' (calculateTopDatasets ex_now ex_metrics ex_metadata Week Visits ! 0)
   \<and> map id' (filter (\<lambda>r. value' r = 300)
        (calculateTopDatasets ex_now ex_metrics ex_metadata Week Visits)) = [''a'', ''b'']
   \<and> prefix [''a'', ''b'']
        (map datasetId
           (filter (\<lambda>m. map_of ex_metadata (datasetId m) \<noteq> None
                       \<and> window_value ex_now Week Visits m = 300) ex_metrics))
   \<and> length (calculateTopDatasets ex_now ex_metrics ex_metadata Week Visits) = 2
   \<and> rank (calculateTopDatasets ex_now ex_metrics ex_metadata Week Visits ! 1) = 2
   \<and> length (calculateTopDatasets ex_now ex_many ex_many_metadata Week Visits) = 100
   \<and> map (\<lambda>r. (id' r, value' r, rank r))
        (take 2 (calculateTopDatasets ex_now ex_many ex_many_metadata Week Visits)) =
        [(''100'', 100, 1), (''099'', 99, 2)]
   \<and> id' (calculateTopDatasets ex_now ex_many ex_many_metadata Week Visits ! 99) = ''001''
   \<and> ''000'' \<notin> id' ` set (calculateTopDatasets ex_now ex_many ex_many_metadata Week Visits)
   \<and> window_value ex_now Week Visits (ex_many ! 0)
       \<le> value' (calculateTopDatasets ex_now ex_many ex_many_metadata Week Visits ! 99)"
proof -
  let ?rs = "calculateTopDatasets ex_now ex_metrics ex_metadata Week Visits"
  note small = ranking_sorted_stable_truncated_ranked [of ex_now ex_metrics ex_metadata Week Visits]
  note s1 = small [THEN conjunct1]
    and s2 = small [THEN conjunct2, THEN conjunct1]
    and s5 = small [THEN conjunct2, THEN conjunct2, THEN conjunct2, THEN conjunct2, THEN conjunct1]
  have len_rs: "length ?rs = 2"
    by (simp add: ex_week_visits)
  have ids_rs: "map id' (filter (\<lambda>r. value' r = 300) ?rs) = [''a'', ''b'']"
    by (simp add: ex_week_visits)
  from s1 len_rs have a1: "value' (?rs ! 1) \<le> value' (?rs ! 0)"
    by simp
  from s2 have "prefix (map id' (filter (\<lambda>r. value' r = 300) ?rs))
      (map datasetId
         (filter (\<lambda>m. map_of ex_metadata (datasetId m) \<noteq> None
                     \<and> window_value ex_now Week Visits m = 300) ex_metrics))"
    by (rule spec)
  then have a2: "prefix [''a'', ''b'']
      (map datasetId
         (filter (\<lambda>m. map_of ex_metadata (datasetId m) \<noteq> None
                     \<and> window_value ex_now Week Visits m = 300) ex_metrics))"
    by (simp only: ids_rs)
  from s5 len_rs have a3: "rank (?rs ! 1) = 2"
    by simp
  let ?L = "calculateTopDatasets ex_now ex_many ex_many_metadata Week Visits"
  note many = ranking_sorted_stable_truncated_ranked [of ex_now ex_many ex_many_metadata Week Visits]
  note m3 = many [THEN conjunct2, THEN conjunct2, THEN conjunct1]
    and m5 = many [THEN conjunct2, THEN conjunct2, THEN conjunct2, THEN conjunct2, THEN conjunct1]
    and m6 = many [THEN conjunct2, THEN conjunct2, THEN conjunct2, THEN conjunct2, THEN conjunct2,
      THEN conjunct1]
    and m7 = many [THEN conjunct2, THEN conjunct2, THEN conjunct2, THEN conjunct2, THEN conjunct2,
      THEN conjunct2]
  have len: "length ?L = 100"
    using m3 by (simp only: ex_many_keep ex_many_length)
  have pairs: "map (\<lambda>r. (id' r, value' r)) ?L =
      take 100 (map (\<lambda>n. (pad 3 n, int n)) (rev [0..<101]))"
    using m6 by (simp only: ex_many_sorted)
  have entry: "id' (?L ! i) = pad 3 (100 - i) \<and> value' (?L ! i) = int (100 - i)" if "i < 100" for i
  proof -
    from that len have "map (\<lambda>r. (id' r, value' r)) ?L ! i = (id' (?L ! i), value' (?L ! i))"
      by simp
    moreover from that
    have "take 100 (map (\<lambda>n. (pad 3 n, int n)) (rev [0..<101])) ! i = (pad 3 (100 - i), int (100 - i))"
      by (simp add: rev_nth)
    ultimately show ?thesis
      by (simp add: pairs)
  qed
  from m5 len have ranks: "rank (?L ! 0) = 1" "rank (?L ! 1) = 2"
    by simp_all
  have two: "take 2 ?L = [?L ! 0, ?L ! 1]"
    using len by (simp add: take_Suc_conv_app_nth numeral_2_eq_2)
  have first: "map (\<lambda>r. (id' r, value' r, rank r)) (take 2 ?L) =
      [(''100'', 100, 1), (''099'', 99, 2)]"
    using entry [of 0] entry [of 1] ranks by (simp add: two pad3 digit_chars)
  have last: "id' (?L ! 99) = ''001''" "value' (?L ! 99) = 1"
    using entry [of 99] by (simp_all add: pad3 digit_chars)
  have "id' ` set ?L = fst ` set (map (\<lambda>r. (id' r, value' r)) ?L)"
    by (simp add: image_image)
  also have "\<dots> = pad 3 ` set (take 100 (rev [0..<101]))"
    unfolding pairs by (simp add: take_map image_image)
  also have "\<dots> = pad 3 ` {1..<101}"
    by (simp add: take_rev)
  finally have ids: "id' ` set ?L = pad 3 ` {1..<101}" .
  have out: "''000'' \<notin> id' ` set ?L"
  proof
    assume "''000'' \<in> id' ` set ?L"
    then obtain n where n: "1 \<le> n" "n < 101" and "''000'' = pad 3 n"
      unfolding ids by auto
    moreover have "pad 3 0 = ''000''"
      by (simp add: pad3 digit_chars)
    ultimately have "pad 3 n = pad 3 0"
      by (simp only:)
    with n have "n = 0"
      by (intro pad3_inj) simp_all
    with n show False by simp
  qed
  have r: "?L ! 99 \<in> set ?L"
    using len by simp
  from m7 ex_many_first(1)
  have "map_of ex_many_metadata (datasetId (ex_many ! 0)) \<noteq> None
      \<and> datasetId (ex_many ! 0) \<notin> id' ` set ?L \<longrightarrow>
      (\<forall>r \<in> set ?L. window_value ex_now Week Visits (ex_many ! 0) \<le> value' r)"
    by (rule bspec)
  moreover have "datasetId (ex_many ! 0) \<notin> id' ` set ?L"
    unfolding ex_many_first(2) by (rule out)
  ultimately have "\<forall>r \<in> set ?L. window_value ex_now Week Visits (ex_many ! 0) \<le> value' r"
    using ex_many_first(3) by blast
  from this r have a4: "window_value ex_now Week Visits (ex_many ! 0) \<le> value' (?L ! 99)"
    by (rule bspec)
  from a1 ids_rs a2 len_rs a3 len first last(1) out a4 show ?thesis
    by (simp only: simp_thms)
qed

end
